theory Spec2Isabelle
  imports Complex_Main "HOL-Library.Multiset" "HOL-Library.Log_Nat"
begin

section \<open>Strings as the engine uses them\<close>

text \<open>
  Strings are byte lists and \<^verbatim>\<open>toLowerCase\<close> is modelled on the ASCII letters. After
  lower-casing, every character outside \<^verbatim>\<open>[a-z0-9_]\<close> acts as a separator for both
  tokenizers, so a non-ASCII character is treated like any other non-word character,
  as its bytes are here. The texts are taken to hold none of the few characters outside
  ASCII whose lower-case form is or contains an ASCII letter (U+212A KELVIN SIGN, U+0130):
  on those JavaScript yields a letter where the model yields a separator.

  Scores and modification times are JavaScript numbers; they are modelled as real numbers
  (no rounding, no NaN). The one integer that the code computes in double precision, the
  index of the percentile cut, is modelled bit for bit.
\<close>

definition upperChars :: string where
  "upperChars = ''ABCDEFGHIJKLMNOPQRSTUVWXYZ''"

definition lowerChars :: string where
  "lowerChars = ''abcdefghijklmnopqrstuvwxyz''"

definition digitChars :: string where
  "digitChars = ''0123456789''"

definition toLowerChar :: "char \<Rightarrow> char" where
  "toLowerChar c = (case map_of (zip upperChars lowerChars) c of Some l \<Rightarrow> l | None \<Rightarrow> c)"

definition toLowerCase :: "string \<Rightarrow> string" where
  "toLowerCase s = map toLowerChar s"

text \<open>The regular-expression classes \<^verbatim>\<open>\w\<close> and \<^verbatim>\<open>\s\<close> (tab, LF, VT, FF, CR, space).\<close>

definition isWordChar :: "char \<Rightarrow> bool" where
  "isWordChar c = (c \<in> set (upperChars @ lowerChars @ digitChars @ ''_''))"

definition isSpaceChar :: "char \<Rightarrow> bool" where
  "isSpaceChar c = (c \<in> set [CHR 0x09, CHR 0x0A, CHR 0x0B, CHR 0x0C, CHR 0x0D, CHR '' ''])"

text \<open>
  \<^verbatim>\<open>s.split(/\s+/)\<close>: the pieces between maximal runs of whitespace. A leading or
  trailing run leaves an empty first or last piece, and the empty string gives one
  empty piece. \<open>inRun\<close> says that the previous character was whitespace, \<open>cur\<close> is
  the piece being read.
\<close>

fun splitWs :: "bool \<Rightarrow> string \<Rightarrow> string \<Rightarrow> string list" where
  "splitWs inRun cur [] = [cur]"
| "splitWs inRun cur (c # cs) =
     (if isSpaceChar c then
        (if inRun then splitWs True cur cs else cur # splitWs True [] cs)
      else splitWs False (cur @ [c]) cs)"

definition split_ws :: "string \<Rightarrow> string list" where
  "split_ws s = splitWs False [] s"

fun startsWith :: "string \<Rightarrow> string \<Rightarrow> bool" where
  "startsWith s [] = True"
| "startsWith [] (p # ps) = False"
| "startsWith (c # cs) (p # ps) = (c = p \<and> startsWith cs ps)"

text \<open>\<^verbatim>\<open>s.includes(sub)\<close> on strings.\<close>

fun str_includes :: "string \<Rightarrow> string \<Rightarrow> bool" where
  "str_includes [] sub = (sub = [])"
| "str_includes (c # cs) sub = (startsWith (c # cs) sub \<or> str_includes cs sub)"

text \<open>\<^verbatim>\<open>xs.join(sep)\<close>.\<close>

fun join :: "string \<Rightarrow> string list \<Rightarrow> string" where
  "join sep [] = []"
| "join sep [x] = x"
| "join sep (x # y # ys) = x @ sep @ join sep (y # ys)"

text \<open>\<^verbatim>\<open>xs.slice(-n)\<close>: the last \<open>n\<close> elements.\<close>

definition lastN :: "nat \<Rightarrow> 'a list \<Rightarrow> 'a list" where
  "lastN n xs = drop (length xs - n) xs"

definition dq :: string where
  "dq = [CHR 0x22]"

section \<open>TFIDFScorer\<close>

record CodebaseFile =
  path :: string
  content :: string
  force :: bool

record FileCandidate = CodebaseFile +
  score :: real
  reasons :: "string list"
  isAutoInclude :: bool
  tokens :: nat

definition tfidfStopWords :: "string list" where
  "tfidfStopWords =
    [''the'', ''a'', ''an'', ''and'', ''or'', ''but'', ''in'', ''on'', ''at'', ''to'', ''for'',
     ''of'', ''with'', ''by'', ''from'', ''up'', ''about'', ''into'', ''through'', ''during'',
     ''before'', ''after'', ''above'', ''below'', ''between'', ''among'', ''this'', ''that'',
     ''these'', ''those'', ''i'', ''me'', ''my'', ''myself'', ''we'', ''our'', ''ours'',
     ''ourselves'', ''you'', ''your'', ''yours'', ''yourself'', ''yourselves'', ''he'', ''him'',
     ''his'', ''himself'', ''she'', ''her'', ''hers'', ''herself'', ''it'', ''its'', ''itself'',
     ''they'', ''them'', ''their'', ''theirs'', ''themselves'', ''what'', ''which'', ''who'',
     ''whom'', ''this'', ''that'', ''these'', ''those'', ''am'', ''is'', ''are'', ''was'',
     ''were'', ''be'', ''been'', ''being'', ''have'', ''has'', ''had'', ''having'', ''do'',
     ''does'', ''did'', ''doing'', ''will'', ''would'', ''should'', ''could'', ''can'', ''may'',
     ''might'', ''must'', ''shall'']"

definition isStopWord :: "string \<Rightarrow> bool" where
  "isStopWord word = (word \<in> set tfidfStopWords)"

text \<open>\<^verbatim>\<open>text.toLowerCase().replace(/[^\w\s]/g, " ").split(/\s+/)\<close> and the two filters.\<close>

definition tokenize :: "string \<Rightarrow> string list" where
  "tokenize text =
     filter (\<lambda>token. \<not> isStopWord token)
       (filter (\<lambda>token. length token > 2 \<and> length token < 50)
          (split_ws (map (\<lambda>c. if isWordChar c \<or> isSpaceChar c then c else CHR '' '')
                         (toLowerCase text))))"

text \<open>
  The scorer's fields after construction: the tokenized documents in corpus order and the
  IDF cache. The vocabulary set is kept as a duplicate-free list.
\<close>

record Document =
  docPath :: string
  docTokens :: "string list"

record TFIDFScorer =
  documents :: "Document list"
  vocabulary :: "string list"
  idfCache :: "string \<rightharpoonup> real"

definition computeIDF :: "Document list \<Rightarrow> string list \<Rightarrow> (string \<rightharpoonup> real)" where
  "computeIDF docs vocab =
     fold (\<lambda>term cache.
             let docsWithTerm = length (filter (\<lambda>doc. term \<in> set (docTokens doc)) docs);
                 idf = ln (real (length docs) / real (docsWithTerm + 1))
             in cache(term \<mapsto> idf))
          vocab Map.empty"

definition newTFIDFScorer :: "'a CodebaseFile_scheme list \<Rightarrow> TFIDFScorer" where
  "newTFIDFScorer fs =
     (let docs = map (\<lambda>file. \<lparr>docPath = path file, docTokens = tokenize (content file)\<rparr>) fs;
          vocab = remdups (concat (map docTokens docs))
      in \<lparr>documents = docs, vocabulary = vocab, idfCache = computeIDF docs vocab\<rparr>)"

text \<open>\<^verbatim>\<open>computeTF\<close>: count every token, then divide every count by the document length.\<close>

definition countTokens :: "string list \<Rightarrow> (string \<rightharpoonup> real)" where
  "countTokens toks =
     fold (\<lambda>token tf. tf(token \<mapsto> (case tf token of None \<Rightarrow> 0 | Some n \<Rightarrow> n) + 1))
          toks Map.empty"

definition computeTF :: "string list \<Rightarrow> (string \<rightharpoonup> real)" where
  "computeTF toks =
     (\<lambda>token. case countTokens toks token of
                 None \<Rightarrow> None
               | Some cnt \<Rightarrow> Some (cnt / real (length toks)))"

text \<open>\<^verbatim>\<open>m.get(k) || 0\<close> on a map of numbers.\<close>

definition getOrZero :: "(string \<rightharpoonup> real) \<Rightarrow> string \<Rightarrow> real" where
  "getOrZero m k = (case m k of None \<Rightarrow> 0 | Some v \<Rightarrow> v)"

definition scoreDocument :: "TFIDFScorer \<Rightarrow> string \<Rightarrow> string \<Rightarrow> real" where
  "scoreDocument scorer filePath query =
     (case find (\<lambda>d. docPath d = filePath) (documents scorer) of
        None \<Rightarrow> 0
      | Some doc \<Rightarrow>
          (let queryTokens = tokenize query;
               docTF = computeTF (docTokens doc)
           in fold (\<lambda>queryToken sc.
                      sc + getOrZero docTF queryToken * getOrZero (idfCache scorer) queryToken)
                   queryTokens 0))"

section \<open>External collaborators\<close>

text \<open>
  Everything the engine imports from outside its own file is a field of the environment:
  the file scanner, the token estimator, the model table, the embedding provider (whether
  one is configured, and what \<^verbatim>\<open>embed\<close> returns; \<open>None\<close> is a rejected promise), the
  file system's \<^verbatim>\<open>stat\<close> (\<open>None\<close> when it throws), the clock, SHA-256 rendered as hex,
  \<^verbatim>\<open>Number.prototype.toFixed\<close> and the functions of \<^verbatim>\<open>node:path\<close>. One call of
  \<^verbatim>\<open>selectFiles\<close> sees one snapshot of them.
\<close>

record AppChatContext =
  smartContextAutoIncludes :: "string list option"

record Env =
  extractCodebase :: "string \<Rightarrow> AppChatContext \<Rightarrow> CodebaseFile list"
  estimateTokens :: "string \<Rightarrow> nat"
  getMaxTokens :: "string \<Rightarrow> nat option"
  providerAvailable :: bool
  embed :: "string \<Rightarrow> real list option"
  statMtimeMs :: "string \<Rightarrow> real option"
  dateNow :: real
  sha256Hex :: "string \<Rightarrow> string"
  toFixed :: "real \<Rightarrow> nat \<Rightarrow> string"
  pathJoin :: "string \<Rightarrow> string \<Rightarrow> string"
  basename :: "string \<Rightarrow> string"
  dirname :: "string \<Rightarrow> string"
  extname :: "string \<Rightarrow> string"

datatype Mode = Off | Conservative | Balanced

record Message =
  role :: string
  msgContent :: string

record PromptContext =
  userPrompt :: string
  recentMessages :: "Message list"

record SmartContextOptions =
  appPath :: string
  chatContext :: AppChatContext
  promptContext :: PromptContext
  mode :: Mode
  model :: string
  tokenBudgetOpt :: "nat option"

record TopScore =
  topPath :: string
  topScore :: real
  topReason :: string

record DebugInfo =
  totalCandidates :: nat
  selectedCount :: nat
  tokenUsage :: nat
  tokenBudget :: nat
  scoringMethod :: string
  topScores :: "TopScore list"
  autoIncludesCount :: nat
  excludedCount :: int

record SmartContextResult =
  selectedFiles :: "CodebaseFile list"
  debug :: DebugInfo

section \<open>EmbeddingCache\<close>

text \<open>
  The cache directory maps a cache key (the file \<^verbatim>\<open><key>.json\<close>) to what the file holds:
  text that \<^verbatim>\<open>JSON.parse\<close> rejects, or a parsed entry. \<open>writable\<close> is false when
  \<^verbatim>\<open>writeFile\<close> and \<^verbatim>\<open>unlink\<close> fail; both failures are swallowed by the code.
  Serialising an entry and parsing it back is taken to return the entry. The age-based
  \<^verbatim>\<open>cleanup\<close> that the constructor starts is not part of the model.
\<close>

record EmbeddingCacheData =
  embedding :: "real list"
  hash :: string
  mtime :: real

datatype CacheFile = Unparsable | Parsed EmbeddingCacheData

record CacheDir =
  cacheFiles :: "string \<rightharpoonup> CacheFile"
  writable :: bool

definition getCacheKey :: "Env \<Rightarrow> string \<Rightarrow> string \<Rightarrow> string" where
  "getCacheKey env filePath cont = sha256Hex env (filePath @ cont)"

definition cacheGet ::
  "Env \<Rightarrow> CacheDir \<Rightarrow> string \<Rightarrow> string \<Rightarrow> real \<Rightarrow> real list option \<times> CacheDir" where
  "cacheGet env cd filePath cont mt =
     (let cacheKey = getCacheKey env filePath cont in
      case cacheFiles cd cacheKey of
        None \<Rightarrow> (None, cd)
      | Some Unparsable \<Rightarrow> (None, cd)
      | Some (Parsed cached) \<Rightarrow>
          if mtime cached = mt then (Some (embedding cached), cd)
          else (None,
                if writable cd then cd\<lparr>cacheFiles := (cacheFiles cd)(cacheKey := None)\<rparr>
                else cd))"

definition cacheSet ::
  "Env \<Rightarrow> CacheDir \<Rightarrow> string \<Rightarrow> string \<Rightarrow> real \<Rightarrow> real list \<Rightarrow> CacheDir" where
  "cacheSet env cd filePath cont mt emb =
     (let cacheKey = getCacheKey env filePath cont;
          h = getCacheKey env filePath cont;
          cacheData = \<lparr>embedding = emb, hash = h, mtime = mt\<rparr>
      in if writable cd then cd\<lparr>cacheFiles := (cacheFiles cd)(cacheKey \<mapsto> Parsed cacheData)\<rparr>
         else cd)"

section \<open>HeuristicScorer and cosine similarity\<close>

text \<open>\<^verbatim>\<open>score += d; reasons.push(r)\<close> on a running pair.\<close>

definition bump :: "real \<Rightarrow> string \<Rightarrow> real \<times> string list \<Rightarrow> real \<times> string list" where
  "bump d r acc = (fst acc + d, snd acc @ [r])"

definition scoreByPath :: "Env \<Rightarrow> string \<Rightarrow> string \<Rightarrow> real \<times> string list" where
  "scoreByPath env filePath query =
     (let fileName = toLowerCase (basename env filePath);
          dirName = toLowerCase (dirname env filePath);
          queryLower = toLowerCase query;
          queryKeywords =
            filter (\<lambda>word. length word > 2)
              (split_ws (map (\<lambda>c. if isWordChar c \<or> isSpaceChar c then c else CHR '' '')
                             queryLower));
          a1 = fold (\<lambda>keyword acc.
                 let acc1 = (if str_includes fileName keyword
                             then bump 0.8 (''filename contains '' @ dq @ keyword @ dq) acc
                             else acc)
                 in (if str_includes dirName keyword
                     then bump 0.4 (''directory contains '' @ dq @ keyword @ dq) acc1
                     else acc1))
                 queryKeywords (0, []);
          ext = toLowerCase (extname env filePath);
          a2 = (if ext \<in> set [''.tsx'', ''.jsx''] \<and> str_includes queryLower ''component''
                then bump 0.6 ''React component file'' a1 else a1);
          a3 = (if ext \<in> set [''.ts'', ''.js''] \<and> str_includes queryLower ''function''
                then bump 0.4 ''JavaScript/TypeScript file'' a2 else a2);
          a4 = (if ext = ''.css'' \<and> str_includes queryLower ''style''
                then bump 0.6 ''CSS file'' a3 else a3);
          a5 = (if fileName \<in> set [''package.json'', ''tsconfig.json'', ''.env'']
                   \<and> (str_includes queryLower ''config'' \<or> str_includes queryLower ''setup'')
                then bump 0.7 ''configuration file'' a4 else a4)
      in (if str_includes fileName ''test'' \<or> str_includes fileName ''spec''
          then (if str_includes queryLower ''test''
                then bump 0.5 ''test file'' a5
                else bump (- 0.3) ''test file (deprioritized)'' a5)
          else a5))"

definition scoreByRecency :: "Env \<Rightarrow> real \<Rightarrow> real \<times> string list" where
  "scoreByRecency env mt =
     (let now = dateNow env;
          ageMs = now - mt;
          ageDays = ageMs / (1000 * 60 * 60 * 24)
      in if ageDays < 1 then (0.5, [''modified today''])
         else if ageDays < 7 then (0.3, [''modified this week''])
         else if ageDays < 30 then (0.1, [''modified this month''])
         else (0, []))"

definition cosineSimilarity :: "real list \<Rightarrow> real list \<Rightarrow> real" where
  "cosineSimilarity a b =
     (if length a \<noteq> length b then 0
      else
        (let tot = fold (\<lambda>xy acc.
                      (fst acc + fst xy * snd xy,
                       fst (snd acc) + fst xy * fst xy,
                       snd (snd acc) + snd xy * snd xy))
                    (zip a b) (0, 0, 0);
             dotProduct = fst tot;
             normA = fst (snd tot);
             normB = snd (snd tot);
             magnitude = sqrt normA * sqrt normB
         in if magnitude = 0 then 0 else dotProduct / magnitude))"

section \<open>SmartContextEngine\<close>

definition calculateTokenBudget :: "Env \<Rightarrow> string \<Rightarrow> nat" where
  "calculateTokenBudget env m =
     (let maxTokens = getMaxTokens env m;
          reservedTokens = 8000
      in nat (max (int (case maxTokens of None \<Rightarrow> 32000
                                       | Some n \<Rightarrow> if n = 0 then 32000 else n)
                   - reservedTokens)
                  10000))"

definition prepareCandidates ::
  "Env \<Rightarrow> SmartContextOptions \<Rightarrow> CodebaseFile list \<Rightarrow> FileCandidate list" where
  "prepareCandidates env opts fs =
     (let autoIncludePaths =
            (case smartContextAutoIncludes (chatContext opts) of None \<Rightarrow> [] | Some ps \<Rightarrow> ps)
      in map (\<lambda>file.
                \<lparr>path = path file, content = content file, force = force file,
                 score = 0, reasons = [],
                 isAutoInclude = (path file \<in> set autoIncludePaths \<or> force file),
                 tokens = estimateTokens env (content file)\<rparr>)
             fs)"

definition buildQuery :: "PromptContext \<Rightarrow> string" where
  "buildQuery pc =
     (let recentUserMessages =
            join '' '' (map msgContent (lastN 3 (filter (\<lambda>m. role m = ''user'')
                                                         (recentMessages pc))))
      in if recentUserMessages \<noteq> [] then userPrompt pc @ '' '' @ recentUserMessages
         else userPrompt pc)"

text \<open>\<^verbatim>\<open>replace(/[\W_]+/g, " ")\<close>: every maximal run of non-word characters and
  underscores becomes one space.\<close>

fun replaceNonWordRuns :: "bool \<Rightarrow> string \<Rightarrow> string" where
  "replaceNonWordRuns inRun [] = []"
| "replaceNonWordRuns inRun (c # cs) =
     (if \<not> isWordChar c \<or> c = CHR ''_'' then
        (if inRun then replaceNonWordRuns True cs
         else CHR '' '' # replaceNonWordRuns True cs)
      else c # replaceNonWordRuns False cs)"

definition keywordStopWords :: "string list" where
  "keywordStopWords =
    [''the'', ''and'', ''you'', ''your'', ''with'', ''that'', ''this'', ''from'', ''into'',
     ''for'', ''not'', ''but'', ''are'', ''was'', ''were'', ''have'', ''has'', ''had'', ''will'',
     ''would'', ''could'', ''should'', ''about'', ''page'', ''component'', ''file'', ''files'',
     ''please'', ''make'', ''add'', ''remove'', ''change'', ''update'', ''toggle'', ''dark'',
     ''light'', ''mode'', ''new'', ''old'', ''like'', ''just'', ''need'', ''want'', ''can'',
     ''able'']"

definition rawKeywords :: "string \<Rightarrow> string list" where
  "rawKeywords text =
     filter (\<lambda>t. length t \<ge> 3 \<and> length t \<le> 40)
       (split_ws (replaceNonWordRuns False (toLowerCase text)))"

definition extractKeywords :: "string \<Rightarrow> string list" where
  "extractKeywords text =
     (let raw = rawKeywords text;
          out = fold (\<lambda>t out. if t \<notin> set keywordStopWords \<and> t \<notin> set out then out @ [t]
                               else out)
                     raw []
      in take 15 out)"

text \<open>\<^verbatim>\<open>candidate.score += d; candidate.reasons.push(r)\<close>.\<close>

definition boost :: "real \<Rightarrow> string \<Rightarrow> FileCandidate \<Rightarrow> FileCandidate" where
  "boost d r c = c\<lparr>score := score c + d, reasons := reasons c @ [r]\<rparr>"

definition addHeuristicScores ::
  "Env \<Rightarrow> SmartContextOptions \<Rightarrow> string \<Rightarrow> FileCandidate \<Rightarrow> FileCandidate" where
  "addHeuristicScores env opts query candidate =
     (let pathScore = scoreByPath env (path candidate) query;
          c1 = candidate\<lparr>score := score candidate + fst pathScore,
                         reasons := reasons candidate @ snd pathScore\<rparr>;
          c2 = (case statMtimeMs env (pathJoin env (appPath opts) (path candidate)) of
                  None \<Rightarrow> c1
                | Some mt \<Rightarrow>
                    (let recencyScore = scoreByRecency env mt
                     in c1\<lparr>score := score c1 + fst recencyScore,
                           reasons := reasons c1 @ snd recencyScore\<rparr>))
      in if isAutoInclude c2 then boost 10 ''auto-include'' c2 else c2)"

text \<open>Array.prototype.sort with the comparator \<^verbatim>\<open>(a, b) => b.score - a.score\<close>: a stable
  sort by descending score.\<close>

definition sortByScoreDesc :: "FileCandidate list \<Rightarrow> FileCandidate list" where
  "sortByScoreDesc cs = sort_key (\<lambda>c. - score c) cs"

definition scoreWithTFIDF ::
  "Env \<Rightarrow> SmartContextOptions \<Rightarrow> string \<Rightarrow> FileCandidate list \<Rightarrow> FileCandidate list" where
  "scoreWithTFIDF env opts query candidates =
     (let scorer = newTFIDFScorer candidates
      in sortByScoreDesc
           (map (\<lambda>candidate.
                   let tfidfScore = scoreDocument scorer (path candidate) query
                   in addHeuristicScores env opts query
                        (candidate\<lparr>score := tfidfScore,
                                   reasons := reasons candidate
                                      @ [''tf-idf score: '' @ toFixed env tfidfScore 3]\<rparr>))
                candidates))"

text \<open>
  The body of the loop of \<^verbatim>\<open>scoreWithEmbeddings\<close> for one candidate: the cache read
  (skipped when \<^verbatim>\<open>stat\<close> throws), the provider call on a miss with the write-back, and
  on a provider failure the \<^verbatim>\<open>continue\<close> that leaves the candidate as it was.
\<close>

definition embedCandidate ::
  "Env \<Rightarrow> SmartContextOptions \<Rightarrow> string \<Rightarrow> real list \<Rightarrow> FileCandidate \<Rightarrow> CacheDir
     \<Rightarrow> FileCandidate \<times> CacheDir" where
  "embedCandidate env opts query queryEmbedding candidate cd =
     (let stats = statMtimeMs env (pathJoin env (appPath opts) (path candidate));
          cached = (case stats of
                      None \<Rightarrow> (None, cd)
                    | Some mt \<Rightarrow> cacheGet env cd (path candidate) (content candidate) mt);
          generated =
            (case fst cached of
               Some e \<Rightarrow> (Some e, snd cached)
             | None \<Rightarrow>
                 (case embed env (content candidate) of
                    None \<Rightarrow> (None, snd cached)
                  | Some e \<Rightarrow>
                      (Some e,
                       case stats of
                         None \<Rightarrow> snd cached
                       | Some mt \<Rightarrow>
                           cacheSet env (snd cached) (path candidate) (content candidate) mt e)))
      in case fst generated of
           None \<Rightarrow> (candidate, snd generated)
         | Some e \<Rightarrow>
             (let similarity = cosineSimilarity queryEmbedding e
              in (addHeuristicScores env opts query
                    (candidate\<lparr>score := similarity,
                               reasons := reasons candidate
                                  @ [''embedding similarity: '' @ toFixed env similarity 3]\<rparr>),
                  snd generated)))"

fun embeddingLoop ::
  "Env \<Rightarrow> SmartContextOptions \<Rightarrow> string \<Rightarrow> real list \<Rightarrow> FileCandidate list \<Rightarrow> CacheDir
     \<Rightarrow> FileCandidate list \<times> CacheDir" where
  "embeddingLoop env opts query queryEmbedding [] cd = ([], cd)"
| "embeddingLoop env opts query queryEmbedding (candidate # rest) cd =
     (let r = embedCandidate env opts query queryEmbedding candidate cd;
          rs = embeddingLoop env opts query queryEmbedding rest (snd r)
      in (fst r # fst rs, snd rs))"

definition scoreWithEmbeddings ::
  "Env \<Rightarrow> SmartContextOptions \<Rightarrow> string \<Rightarrow> FileCandidate list \<Rightarrow> CacheDir
     \<Rightarrow> FileCandidate list \<times> CacheDir" where
  "scoreWithEmbeddings env opts query candidates cd =
     (case embed env query of
        None \<Rightarrow> (scoreWithTFIDF env opts query candidates, cd)
      | Some queryEmbedding \<Rightarrow>
          (let r = embeddingLoop env opts query queryEmbedding candidates cd
           in (sortByScoreDesc (fst r), snd r)))"

text \<open>The body of the post-scoring loop of \<^verbatim>\<open>scoreCandidates\<close> for one candidate.\<close>

definition keywordAdjust :: "Env \<Rightarrow> string list \<Rightarrow> FileCandidate \<Rightarrow> FileCandidate" where
  "keywordAdjust env keywords c =
     (let baseName = toLowerCase (basename env (path c));
          dir = toLowerCase (dirname env (path c));
          text = toLowerCase (content c);
          hasKeywordInPath =
            list_ex (\<lambda>k. str_includes baseName k \<or> str_includes dir k) keywords;
          hasKeywordInContent = list_ex (\<lambda>k. str_includes text k) keywords;
          wantsWatermark =
            list_ex (\<lambda>k. k \<in> set [''watermark'', ''ternary'', ''made'']) keywords;
          c1 = (if wantsWatermark
                   \<and> (str_includes baseName ''made-with-ternary''
                      \<or> str_includes baseName ''watermark''
                      \<or> str_includes text ''made with ternary'')
                then boost 2.0 ''bonus: watermark-related file'' c else c);
          wantsThemeToggle =
            list_ex (\<lambda>k. k \<in> set [''theme'', ''toggle'', ''dark'', ''light'']) keywords;
          themePaths = [''theme'', ''toggle'', ''globals.css'', ''tailwind.config'',
                        ''index.html'', ''app.css'', ''layout'', ''ThemeToggle'',
                        ''toggle-group''];
          c2 = (if wantsThemeToggle
                   \<and> list_ex (\<lambda>p. str_includes baseName (toLowerCase p)
                                   \<or> str_includes dir (toLowerCase p)) themePaths
                then boost 1.5 ''bonus: theme-toggle related path'' c1 else c1);
          negativeDirs = [''chart'', ''charts'', ''graph'', ''analytics'', ''test'',
                          ''stories'', ''storybook''];
          isNegativeDir =
            list_ex (\<lambda>d. str_includes dir d \<or> str_includes baseName d) negativeDirs;
          mentionedNegative = list_ex (\<lambda>k. k \<in> set negativeDirs) keywords;
          c3 = (if isNegativeDir \<and> \<not> mentionedNegative
                   \<and> \<not> hasKeywordInPath \<and> \<not> hasKeywordInContent
                then boost (- 5) ''penalty: negative-dir without mention'' c2 else c2)
      in if \<not> hasKeywordInPath \<and> \<not> hasKeywordInContent
         then boost (- 0.5) ''penalty: no keyword hint'' c3
         else boost 0.5 ''bonus: keyword match'' c3)"

text \<open>The base scoring of \<^verbatim>\<open>scoreCandidates\<close>: the provider's availability picks the
  scorer.\<close>

definition baseScore ::
  "Env \<Rightarrow> SmartContextOptions \<Rightarrow> string \<Rightarrow> FileCandidate list \<Rightarrow> CacheDir
     \<Rightarrow> FileCandidate list \<times> CacheDir" where
  "baseScore env opts query candidates cd =
     (if providerAvailable env then scoreWithEmbeddings env opts query candidates cd
      else (scoreWithTFIDF env opts query candidates, cd))"

definition scoreCandidates ::
  "Env \<Rightarrow> SmartContextOptions \<Rightarrow> FileCandidate list \<Rightarrow> CacheDir
     \<Rightarrow> FileCandidate list \<times> CacheDir" where
  "scoreCandidates env opts candidates cd =
     (let query = buildQuery (promptContext opts);
          keywords = extractKeywords query;
          scored = baseScore env opts query candidates cd
      in (sortByScoreDesc (map (keywordAdjust env keywords) (fst scored)), snd scored))"

subsection \<open>selectWithinBudget\<close>

definition maxFilesOf :: "Mode \<Rightarrow> nat" where
  "maxFilesOf m = (if m = Conservative then 8 else 20)"

text \<open>
  \<^verbatim>\<open>pct\<close> is a double: the literals 0.85 and 0.7 denote \<^verbatim>\<open>0x1.b333333333333p-1\<close> and
  \<^verbatim>\<open>0x1.6666666666666p-1\<close>. A double in \<open>[1/2, 1)\<close> is written as its 53-bit significand
  \<open>m\<close>, its value being \<open>m / 2\<^sup>5\<^sup>3\<close>.
\<close>

definition pctOf :: "Mode \<Rightarrow> nat" where
  "pctOf m = (if m = Conservative then 7656119366529843 else 6305039478318694)"

text \<open>\<open>p / 2\<^sup>s\<close> rounded to the nearest integer, a tie to the even one.\<close>

definition roundToEven :: "nat \<Rightarrow> nat \<Rightarrow> nat" where
  "roundToEven p s =
     (let q = p div 2 ^ s; r = p mod 2 ^ s
      in if 2 * r < 2 ^ s then q
         else if 2 ^ s < 2 * r then q + 1
         else if even q then q else q + 1)"

text \<open>
  \<^verbatim>\<open>Math.floor(n * pct)\<close> for an array length \<open>n\<close> (which a double holds exactly) and the
  double with significand \<open>m\<close>: the exact product \<open>n \<cdot> m / 2\<^sup>5\<^sup>3\<close> is rounded to 53
  significant bits, ties to even, and the rounded value is floored. \<open>s\<close> is the number
  of low bits of \<open>n \<cdot> m\<close> that the rounding drops.
\<close>

definition floorTimes :: "nat \<Rightarrow> nat \<Rightarrow> int" where
  "floorTimes n m =
     (let p = n * m;
          s = floorlog 2 p - 53;
          mant = roundToEven p s
      in int ((mant * 2 ^ s) div 2 ^ 53))"

text \<open>\<^verbatim>\<open>scores[idx] ?? 0\<close> with the clamped index; \<open>scores\<close> is already sorted ascending.\<close>

definition percentileCutOf :: "Mode \<Rightarrow> real list \<Rightarrow> real" where
  "percentileCutOf m scores =
     (let idx = max 0 (min (int (length scores) - 1) (floorTimes (length scores) (pctOf m)))
      in if nat idx < length scores then scores ! nat idx else 0)"

definition minScoreOf :: "Mode \<Rightarrow> FileCandidate list \<Rightarrow> real" where
  "minScoreOf m remaining =
     (let scores = sort (map score remaining);
          percentileCut = percentileCutOf m scores
      in max percentileCut 0.15)"

definition filteredReason :: "Env \<Rightarrow> real \<Rightarrow> string" where
  "filteredReason env minScore = ''filtered: below threshold '' @ toFixed env minScore 2"

text \<open>
  The loop over \<open>remaining\<close>. It returns the selection and the candidates of
  \<open>remaining\<close> as the loop leaves them: a candidate below the threshold that the loop
  visits has the reason pushed, and after a \<^verbatim>\<open>break\<close> the rest is untouched.
\<close>

fun selectLoop ::
  "Env \<Rightarrow> nat \<Rightarrow> nat \<Rightarrow> real \<Rightarrow> FileCandidate list \<Rightarrow> FileCandidate list \<Rightarrow> nat
     \<Rightarrow> FileCandidate list \<times> FileCandidate list" where
  "selectLoop env maxFiles budget minScore [] selected usedTokens = (selected, [])"
| "selectLoop env maxFiles budget minScore (candidate # rest) selected usedTokens =
     (if score candidate < minScore then
        (let r = selectLoop env maxFiles budget minScore rest selected usedTokens
         in (fst r,
             candidate\<lparr>reasons := reasons candidate @ [filteredReason env minScore]\<rparr> # snd r))
      else if length selected \<ge> maxFiles then (selected, candidate # rest)
      else if usedTokens + tokens candidate > budget then (selected, candidate # rest)
      else
        (let r = selectLoop env maxFiles budget minScore rest (selected @ [candidate])
                   (usedTokens + tokens candidate)
         in (fst r, candidate # snd r)))"

definition selectWithinBudget ::
  "Env \<Rightarrow> FileCandidate list \<Rightarrow> nat \<Rightarrow> SmartContextOptions
     \<Rightarrow> FileCandidate list \<times> FileCandidate list" where
  "selectWithinBudget env candidates budget opts =
     (let autoIncludes = filter isAutoInclude candidates;
          start = fold (\<lambda>autoInclude acc. (fst acc @ [autoInclude], snd acc + tokens autoInclude))
                       autoIncludes ([], 0);
          remaining = filter (\<lambda>c. \<not> isAutoInclude c) candidates;
          maxFiles = maxFilesOf (mode opts);
          minScore = minScoreOf (mode opts) remaining
      in selectLoop env maxFiles budget minScore remaining (fst start) (snd start))"

subsection \<open>selectFiles\<close>

definition sumTokens :: "FileCandidate list \<Rightarrow> nat" where
  "sumTokens fs = fold (\<lambda>f acc. acc + tokens f) fs 0"

definition selectFilesTraditional :: "Env \<Rightarrow> SmartContextOptions \<Rightarrow> SmartContextResult" where
  "selectFilesTraditional env opts =
     (let fs = extractCodebase env (appPath opts) (chatContext opts);
          totalTokens = fold (\<lambda>f acc. acc + estimateTokens env (content f)) fs 0
      in \<lparr>selectedFiles = fs,
          debug = \<lparr>totalCandidates = length fs,
                   selectedCount = length fs,
                   tokenUsage = totalTokens,
                   tokenBudget = totalTokens,
                   scoringMethod = ''traditional'',
                   topScores = [],
                   autoIncludesCount = length (filter force fs),
                   excludedCount = 0\<rparr>\<rparr>)"

definition selectFiles ::
  "Env \<Rightarrow> SmartContextOptions \<Rightarrow> CacheDir \<Rightarrow> SmartContextResult \<times> CacheDir" where
  "selectFiles env opts cd =
     (if mode opts = Off then (selectFilesTraditional env opts, cd)
      else
        (let candidateFiles = extractCodebase env (appPath opts) (chatContext opts);
             budget = (case tokenBudgetOpt opts of
                         None \<Rightarrow> calculateTokenBudget env (model opts)
                       | Some b \<Rightarrow> if b = 0 then calculateTokenBudget env (model opts) else b);
             candidates = prepareCandidates env opts candidateFiles;
             scoredCandidates = scoreCandidates env opts candidates cd;
             selected = fst (selectWithinBudget env (fst scoredCandidates) budget opts)
         in (\<lparr>selectedFiles =
                 map (\<lambda>c. \<lparr>path = path c, content = content c, force = isAutoInclude c\<rparr>)
                     selected,
               debug = \<lparr>totalCandidates = length candidates,
                        selectedCount = length selected,
                        tokenUsage = sumTokens selected,
                        tokenBudget = budget,
                        scoringMethod =
                          (if providerAvailable env then ''embeddings'' else ''tf-idf''),
                        topScores =
                          map (\<lambda>f. \<lparr>topPath = path f, topScore = score f,
                                     topReason = join '', '' (reasons f)\<rparr>)
                              (take 10 selected),
                        autoIncludesCount = length (filter isAutoInclude selected),
                        excludedCount = int (length candidates) - int (length selected)\<rparr>\<rparr>,
             snd scoredCandidates)))"

section \<open>Vocabulary of the statements\<close>

text \<open>What a candidate keeps through scoring: its file, its auto-include flag and its
  token estimate.\<close>

definition core :: "FileCandidate \<Rightarrow> string \<times> string \<times> bool \<times> nat" where
  "core c = (path c, content c, isAutoInclude c, tokens c)"

text \<open>What one visit of the selection loop does to a candidate of \<open>remaining\<close>.\<close>

definition mark :: "Env \<Rightarrow> real \<Rightarrow> FileCandidate \<Rightarrow> FileCandidate" where
  "mark env ms c =
     (if score c < ms then c\<lparr>reasons := reasons c @ [filteredReason env ms]\<rparr> else c)"

text \<open>The file a selected candidate is returned as.\<close>

definition toFile :: "FileCandidate \<Rightarrow> CodebaseFile" where
  "toFile c = \<lparr>path = path c, content = content c, force = isAutoInclude c\<rparr>"

text \<open>The budget a call works with: the option when it is given and not zero, else the
  model's.\<close>

definition budgetOf :: "Env \<Rightarrow> SmartContextOptions \<Rightarrow> nat" where
  "budgetOf env opts =
     (case tokenBudgetOpt opts of
        None \<Rightarrow> calculateTokenBudget env (model opts)
      | Some b \<Rightarrow> if b = 0 then calculateTokenBudget env (model opts) else b)"

text \<open>The candidates of a call, as \<^verbatim>\<open>prepareCandidates\<close> makes them from the scanner's
  files.\<close>

definition candidatesOf :: "Env \<Rightarrow> SmartContextOptions \<Rightarrow> FileCandidate list" where
  "candidatesOf env opts =
     prepareCandidates env opts (extractCodebase env (appPath opts) (chatContext opts))"

section \<open>A small workspace\<close>

text \<open>
  Three scanned files with 1000, 2000 and 2432 estimated tokens, the first one forced; no
  embedding provider, no file on disk. The paths are flat, so \<^verbatim>\<open>basename\<close> is the path
  itself and \<^verbatim>\<open>dirname\<close> is "."; \<^verbatim>\<open>toFixed\<close> is given on the value 0, where the examples
  need it, and the hash is a stand-in (no statement depends on which function it is).
\<close>

definition demoFiles :: "CodebaseFile list" where
  "demoFiles =
     [\<lparr>path = ''login.ts'', content = ''alpha'', force = True\<rparr>,
      \<lparr>path = ''chart.ts'', content = ''beta'', force = False\<rparr>,
      \<lparr>path = ''notes.md'', content = ''gamma'', force = False\<rparr>]"

definition demoEnv :: Env where
  "demoEnv =
     \<lparr>extractCodebase = (\<lambda>_ _. demoFiles),
      estimateTokens = (\<lambda>s. if s = ''alpha'' then 1000 else if s = ''beta'' then 2000 else 2432),
      getMaxTokens = (\<lambda>_. None),
      providerAvailable = False,
      embed = (\<lambda>_. None),
      statMtimeMs = (\<lambda>_. None),
      dateNow = 0,
      sha256Hex = (\<lambda>s. s),
      toFixed = (\<lambda>x digits. if x = 0 then (if digits = 3 then ''0.000'' else ''0.00'')
                              else ''#''),
      pathJoin = (\<lambda>a b. a @ ''/'' @ b),
      basename = (\<lambda>p. p),
      dirname = (\<lambda>_. ''.''),
      extname = (\<lambda>p. dropWhile (\<lambda>c. c \<noteq> CHR ''.'') p)\<rparr>"

definition demoOptions :: SmartContextOptions where
  "demoOptions =
     \<lparr>appPath = ''/app'',
      chatContext = \<lparr>smartContextAutoIncludes = None\<rparr>,
      promptContext = \<lparr>userPrompt = ''login'', recentMessages = []\<rparr>,
      mode = Balanced,
      model = ''m'',
      tokenBudgetOpt = Some 5000\<rparr>"

definition emptyCache :: CacheDir where
  "emptyCache = \<lparr>cacheFiles = Map.empty, writable = True\<rparr>"

text \<open>Nine forced files, one more than the conservative cap.\<close>

definition nineForced :: "CodebaseFile list" where
  "nineForced =
     map (\<lambda>p. \<lparr>path = p, content = ''x'', force = True\<rparr>)
         [''f1'', ''f2'', ''f3'', ''f4'', ''f5'', ''f6'', ''f7'', ''f8'', ''f9'']"

text \<open>Two scored candidates, neither an auto-include, in descending score order.\<close>

definition bigHigh :: FileCandidate where
  "bigHigh = \<lparr>path = ''big.ts'', content = ''x'', force = False, score = 1, reasons = [],
              isAutoInclude = False, tokens = 100\<rparr>"

text \<open>Ninety candidates with the scores 0 to 89, none an auto-include.\<close>

definition ninety :: "FileCandidate list" where
  "ninety =
     map (\<lambda>i. \<lparr>path = replicate (Suc i) (CHR ''f''), content = [], force = False,
                score = real i, reasons = [], isAutoInclude = False, tokens = 1\<rparr>)
         [0..<90]"

definition smallLow :: FileCandidate where
  "smallLow = \<lparr>path = ''low.ts'', content = ''y'', force = False, score = 0.1, reasons = [],
               isAutoInclude = False, tokens = 1\<rparr>"

text \<open>A prompt with upper case, punctuation, an underscore, stopwords and a repeated word.\<close>

definition demoText :: string where
  "demoText = ''Add the Login page; login_form for USERS''"

text \<open>A corpus of three one-word documents.\<close>

definition threeDocs :: "CodebaseFile list" where
  "threeDocs =
     [\<lparr>path = ''a.ts'', content = ''foo'', force = False\<rparr>,
      \<lparr>path = ''b.ts'', content = ''bar'', force = False\<rparr>,
      \<lparr>path = ''c.ts'', content = ''baz'', force = False\<rparr>]"

text \<open>
  Two workspaces with one forced file and a configured embedding provider. In the first
  every provider call fails, the call for the query included. In the second the query is
  embedded and the call for the file's content fails. The candidates name the file as it
  is prepared and as the scoring steps leave it.
\<close>

definition queryFailEnv :: Env where
  "queryFailEnv =
     demoEnv\<lparr>extractCodebase := (\<lambda>_ _. [\<lparr>path = ''login.ts'', content = ''alpha'', force = True\<rparr>]),
             providerAvailable := True,
             embed := (\<lambda>_. None)\<rparr>"

definition loginAfterTfidf :: FileCandidate where
  "loginAfterTfidf =
     \<lparr>path = ''login.ts'', content = ''alpha'', force = True, score = 10.8,
      reasons = [''tf-idf score: 0.000'', ''filename contains '' @ dq @ ''login'' @ dq,
                 ''auto-include''],
      isAutoInclude = True, tokens = 1000\<rparr>"

definition loginFinal :: FileCandidate where
  "loginFinal =
     \<lparr>path = ''login.ts'', content = ''alpha'', force = True, score = 11.3,
      reasons = [''tf-idf score: 0.000'', ''filename contains '' @ dq @ ''login'' @ dq,
                 ''auto-include'', ''bonus: keyword match''],
      isAutoInclude = True, tokens = 1000\<rparr>"

definition docFailEnv :: Env where
  "docFailEnv =
     demoEnv\<lparr>extractCodebase := (\<lambda>_ _. [\<lparr>path = ''login.ts'', content = ''alpha'', force = True\<rparr>]),
             providerAvailable := True,
             embed := (\<lambda>s. if s = ''login'' then Some [1, 0] else None)\<rparr>"

definition loginCandidate :: FileCandidate where
  "loginCandidate =
     \<lparr>path = ''login.ts'', content = ''alpha'', force = True, score = 0, reasons = [],
      isAutoInclude = True, tokens = 1000\<rparr>"

definition loginKeywordOnly :: FileCandidate where
  "loginKeywordOnly =
     \<lparr>path = ''login.ts'', content = ''alpha'', force = True, score = 0.5,
      reasons = [''bonus: keyword match''], isAutoInclude = True, tokens = 1000\<rparr>"

definition loginHeuristic :: FileCandidate where
  "loginHeuristic =
     \<lparr>path = ''login.ts'', content = ''alpha'', force = True, score = 10.8,
      reasons = [''filename contains '' @ dq @ ''login'' @ dq, ''auto-include''],
      isAutoInclude = True, tokens = 1000\<rparr>"

section \<open>The specification's words\<close>

text \<open>
  The threshold as the specification words it: the score at the clamped index
  \<open>\<lfloor>len \<cdot> pct\<rfloor>\<close> of the ascending score list, or 0 for the empty list, and never
  below 0.15. \<open>minScoreClaimed\<close> takes the floor of the exact product, as the claim
  reads; \<open>minScoreSpec\<close> takes the floor of the double product.
\<close>

definition clamp :: "int \<Rightarrow> int \<Rightarrow> int \<Rightarrow> int" where
  "clamp x lo hi = (if x < lo then lo else if hi < x then hi else x)"

definition pctExact :: "Mode \<Rightarrow> real" where
  "pctExact m = (if m = Conservative then 0.85 else 0.70)"

definition minScoreClaimed :: "Mode \<Rightarrow> real list \<Rightarrow> real" where
  "minScoreClaimed m scores =
     (let len = length scores;
          percentileCut =
            (if scores = [] then 0
             else scores ! nat (clamp \<lfloor>real len * pctExact m\<rfloor> 0 (int len - 1)))
      in max percentileCut 0.15)"

definition minScoreSpec :: "Mode \<Rightarrow> real list \<Rightarrow> real" where
  "minScoreSpec m scores =
     (let len = length scores;
          percentileCut =
            (if scores = [] then 0
             else scores ! nat (clamp (floorTimes len (pctOf m)) 0 (int len - 1)))
      in max percentileCut 0.15)"

text \<open>
  The keyword list as the claim words it: the raw tokens that are not stopwords, each kept
  at its first occurrence, cut to 15.
\<close>

fun firstOccurrences :: "'a list \<Rightarrow> 'a list" where
  "firstOccurrences [] = []"
| "firstOccurrences (x # xs) = x # firstOccurrences (filter (\<lambda>y. y \<noteq> x) xs)"

definition extractKeywordsSpec :: "string \<Rightarrow> string list" where
  "extractKeywordsSpec text =
     take 15 (firstOccurrences (filter (\<lambda>t. t \<notin> set keywordStopWords) (rawKeywords text)))"

text \<open>
  Term frequency and inverse document frequency as the specification words them: the raw
  count over the document's token length, and \<open>ln(N / (1 + df))\<close> for a term of the
  vocabulary; a term missing from the document or from the vocabulary contributes zero.
  \<open>tfidfDistinctSpec\<close> is the score of the claim, a sum over the distinct query tokens.
\<close>

definition tfSpec :: "string list \<Rightarrow> string \<Rightarrow> real" where
  "tfSpec toks t = real (count_list toks t) / real (length toks)"

definition idfSpec :: "Document list \<Rightarrow> string \<Rightarrow> real" where
  "idfSpec docs t =
     (if list_ex (\<lambda>d. t \<in> set (docTokens d)) docs
      then ln (real (length docs)
               / (1 + real (length (filter (\<lambda>d. t \<in> set (docTokens d)) docs))))
      else 0)"

definition tfidfDistinctSpec :: "Document list \<Rightarrow> Document \<Rightarrow> string \<Rightarrow> real" where
  "tfidfDistinctSpec docs doc query =
     sum_list (map (\<lambda>t. tfSpec (docTokens doc) t * idfSpec docs t) (remdups (tokenize query)))"

text \<open>
  The persisted layout: every parsed cache file stores, as its \<open>hash\<close>, the key it is filed
  under. The empty directory has this form and \<^verbatim>\<open>set\<close> and \<^verbatim>\<open>get\<close> keep it.
\<close>

definition cacheWellFormed :: "CacheDir \<Rightarrow> bool" where
  "cacheWellFormed cd = (\<forall>k e. cacheFiles cd k = Some (Parsed e) \<longrightarrow> hash e = k)"

section \<open>Sums and the selection loop\<close>

lemma fold_add_sum: "fold (\<lambda>f acc. acc + g f) xs (a::nat) = a + sum_list (map g xs)"
  by (induction xs arbitrary: a) auto

lemma sumTokens_sum_list: "sumTokens fs = sum_list (map tokens fs)"
  by (simp add: sumTokens_def fold_add_sum)

lemma fold_autoIncludes:
  "fold (\<lambda>a acc. (fst acc @ [a], snd acc + tokens a)) xs (s, u)
     = (s @ xs, u + sum_list (map tokens xs))"
  by (induction xs arbitrary: s u) auto

text \<open>
  The loop visits a prefix of length \<open>k\<close>: it selects the candidates of the prefix at or
  above the threshold, marks the others, and leaves the rest untouched. It stops early
  only at a candidate at or above the threshold that meets the file cap or the budget.
\<close>

lemma selectLoop_prefix:
  "\<exists>k\<le>length cs.
     fst (selectLoop env mf b ms cs sel used) = sel @ filter (\<lambda>c. ms \<le> score c) (take k cs)
   \<and> snd (selectLoop env mf b ms cs sel used) = map (mark env ms) (take k cs) @ drop k cs
   \<and> (k < length cs \<longrightarrow> ms \<le> score (cs ! k)
         \<and> (mf \<le> length sel + length (filter (\<lambda>c. ms \<le> score c) (take k cs))
            \<or> b < used + sum_list (map tokens (filter (\<lambda>c. ms \<le> score c) (take k cs)))
                     + tokens (cs ! k)))
   \<and> (filter (\<lambda>c. ms \<le> score c) (take k cs) \<noteq> [] \<longrightarrow>
         used + sum_list (map tokens (filter (\<lambda>c. ms \<le> score c) (take k cs))) \<le> b
       \<and> length sel + length (filter (\<lambda>c. ms \<le> score c) (take k cs)) \<le> mf)"
  (is "\<exists>k\<le>length cs. ?run cs sel used k")
proof (induction cs arbitrary: sel used)
  case Nil
  show ?case by simp
next
  case (Cons c cs)
  show ?case
  proof (cases "score c < ms")
    case True
    from Cons.IH[of sel used] obtain k where "k \<le> length cs" "?run cs sel used k"
      by blast
    with True have "Suc k \<le> length (c # cs) \<and> ?run (c # cs) sel used (Suc k)"
      by (simp add: mark_def Let_def)
    then show ?thesis by blast
  next
    case notBelow: False
    show ?thesis
    proof (cases "mf \<le> length sel \<or> b < used + tokens c")
      case True
      with notBelow have "0 \<le> length (c # cs) \<and> ?run (c # cs) sel used 0"
        by auto
      then show ?thesis by blast
    next
      case False
      from Cons.IH[of "sel @ [c]" "used + tokens c"] obtain k
        where "k \<le> length cs" "?run cs (sel @ [c]) (used + tokens c) k"
        by blast
      with notBelow False have "Suc k \<le> length (c # cs) \<and> ?run (c # cs) sel used (Suc k)"
        by (auto simp add: mark_def Let_def)
      then show ?thesis by blast
    qed
  qed
qed

lemma selectWithinBudget_run:
  fixes env candidates budget opts
  defines "autos \<equiv> filter isAutoInclude candidates"
    and "remaining \<equiv> filter (\<lambda>c. \<not> isAutoInclude c) candidates"
  defines "ms \<equiv> minScoreOf (mode opts) remaining"
  shows "\<exists>k\<le>length remaining.
     fst (selectWithinBudget env candidates budget opts)
       = autos @ filter (\<lambda>c. ms \<le> score c) (take k remaining)
   \<and> snd (selectWithinBudget env candidates budget opts)
       = map (mark env ms) (take k remaining) @ drop k remaining
   \<and> (k < length remaining \<longrightarrow> ms \<le> score (remaining ! k)
         \<and> (maxFilesOf (mode opts)
               \<le> length autos + length (filter (\<lambda>c. ms \<le> score c) (take k remaining))
            \<or> budget < sum_list (map tokens autos)
                     + sum_list (map tokens (filter (\<lambda>c. ms \<le> score c) (take k remaining)))
                     + tokens (remaining ! k)))
   \<and> (filter (\<lambda>c. ms \<le> score c) (take k remaining) \<noteq> [] \<longrightarrow>
         sum_list (map tokens autos)
           + sum_list (map tokens (filter (\<lambda>c. ms \<le> score c) (take k remaining))) \<le> budget
       \<and> length autos + length (filter (\<lambda>c. ms \<le> score c) (take k remaining))
           \<le> maxFilesOf (mode opts))"
proof -
  have "selectWithinBudget env candidates budget opts
          = selectLoop env (maxFilesOf (mode opts)) budget ms remaining autos
              (sum_list (map tokens autos))"
    by (simp add: selectWithinBudget_def Let_def fold_autoIncludes autos_def remaining_def
        ms_def)
  then show ?thesis
    using selectLoop_prefix[of remaining env "maxFilesOf (mode opts)" budget ms autos
        "sum_list (map tokens autos)"]
    by simp
qed

section \<open>Scoring keeps the candidates\<close>

lemma core_boost: "core (boost d r c) = core c"
  by (simp add: core_def boost_def)

lemma core_addHeuristicScores: "core (addHeuristicScores env opts q c) = core c"
  by (simp add: addHeuristicScores_def Let_def core_def boost_def split: option.splits)

lemma core_keywordAdjust: "core (keywordAdjust env ks c) = core c"
  by (simp add: keywordAdjust_def Let_def core_boost)

lemma core_embedCandidate: "core (fst (embedCandidate env opts q qe c cd)) = core c"
  by (simp add: embedCandidate_def Let_def core_addHeuristicScores split: option.splits)
     (simp add: core_def)

lemma map_core_embeddingLoop:
  "map core (fst (embeddingLoop env opts q qe cs cd)) = map core cs"
  by (induction cs arbitrary: cd) (simp_all add: Let_def core_embedCandidate)

lemma mset_sortByScoreDesc: "mset (sortByScoreDesc cs) = mset cs"
  by (simp add: sortByScoreDesc_def)

lemma mset_core_sortByScoreDesc: "mset (map core (sortByScoreDesc cs)) = mset (map core cs)"
  by (metis mset_map mset_sortByScoreDesc)

lemma mset_core_scoreWithTFIDF:
  "mset (map core (scoreWithTFIDF env opts q cs)) = mset (map core cs)"
proof -
  have "map core (map (\<lambda>candidate.
                   let tfidfScore = scoreDocument (newTFIDFScorer cs) (path candidate) q
                   in addHeuristicScores env opts q
                        (candidate\<lparr>score := tfidfScore,
                                   reasons := reasons candidate
                                      @ [''tf-idf score: '' @ toFixed env tfidfScore 3]\<rparr>)) cs)
        = map core cs"
    by (simp add: Let_def core_addHeuristicScores) (simp add: core_def)
  then show ?thesis
    by (simp only: scoreWithTFIDF_def Let_def mset_core_sortByScoreDesc)
qed

lemma mset_core_scoreWithEmbeddings:
  "mset (map core (fst (scoreWithEmbeddings env opts q cs cd))) = mset (map core cs)"
  by (simp del: mset_map add: scoreWithEmbeddings_def Let_def mset_core_scoreWithTFIDF
      mset_core_sortByScoreDesc map_core_embeddingLoop split: option.splits)

lemma mset_core_baseScore:
  "mset (map core (fst (baseScore env opts q cs cd))) = mset (map core cs)"
  by (simp del: mset_map add: baseScore_def mset_core_scoreWithEmbeddings mset_core_scoreWithTFIDF)

lemma mset_core_scoreCandidates:
  "mset (map core (fst (scoreCandidates env opts cs cd))) = mset (map core cs)"
proof -
  have "map core (map (keywordAdjust env ks) xs) = map core xs" for ks xs
    by (simp add: core_keywordAdjust)
  then show ?thesis
    by (simp only: scoreCandidates_def Let_def fst_conv mset_core_sortByScoreDesc mset_core_baseScore)
qed

lemma tokens_prepareCandidates:
  "c \<in> set (prepareCandidates env opts fs) \<Longrightarrow> tokens c = estimateTokens env (content c)"
  by (auto simp: prepareCandidates_def Let_def)

section \<open>The result of a call in terms of the selection\<close>

lemma selectFiles_fields:
  fixes env opts cd
  assumes "mode opts \<noteq> Off"
  defines "sel \<equiv> fst (selectWithinBudget env (fst (scoreCandidates env opts (candidatesOf env opts) cd))
                      (budgetOf env opts) opts)"
  shows "selectedFiles (fst (selectFiles env opts cd)) = map toFile sel"
    and "selectedCount (debug (fst (selectFiles env opts cd))) = length sel"
    and "tokenUsage (debug (fst (selectFiles env opts cd))) = sum_list (map tokens sel)"
    and "tokenBudget (debug (fst (selectFiles env opts cd))) = budgetOf env opts"
    and "scoringMethod (debug (fst (selectFiles env opts cd)))
           = (if providerAvailable env then ''embeddings'' else ''tf-idf'')"
  using assms(1) unfolding sel_def
  by (simp_all add: selectFiles_def Let_def budgetOf_def candidatesOf_def sumTokens_sum_list
      toFile_def[abs_def])

lemma scored_core:
  "mset (map core (fst (scoreCandidates env opts (candidatesOf env opts) cd)))
     = mset (map core (candidatesOf env opts))"
  by (rule mset_core_scoreCandidates)

lemma scored_tokens:
  assumes "c \<in> set (fst (scoreCandidates env opts (candidatesOf env opts) cd))"
  shows "tokens c = estimateTokens env (content c)"
proof -
  from assms have "core c \<in> set (map core (fst (scoreCandidates env opts (candidatesOf env opts) cd)))"
    by simp
  then have "core c \<in> set (map core (candidatesOf env opts))"
    using scored_core[of env opts cd] by (metis set_mset_mset)
  then obtain c' where c': "c' \<in> set (candidatesOf env opts)" and eq: "core c' = core c"
    by auto
  from c' have "tokens c' = estimateTokens env (content c')"
    unfolding candidatesOf_def by (rule tokens_prepareCandidates)
  moreover from eq have "tokens c' = tokens c" "content c' = content c"
    by (simp_all add: core_def)
  ultimately show ?thesis
    by simp
qed

lemma mset_filter_sum:
  fixes g :: "'b \<Rightarrow> nat"
  assumes "mset (map f xs) = mset (map f ys)"
  shows "sum_list (map g (filter P (map f xs))) = sum_list (map g (filter P (map f ys)))"
    and "length (filter P (map f xs)) = length (filter P (map f ys))"
proof -
  have "mset (map g (filter P (map f xs))) = mset (map g (filter P (map f ys)))"
    using assms by (metis mset_filter mset_map)
  then show "sum_list (map g (filter P (map f xs))) = sum_list (map g (filter P (map f ys)))"
    by (metis sum_mset_sum_list)
  have "mset (filter P (map f xs)) = mset (filter P (map f ys))"
    using assms by (metis mset_filter)
  then show "length (filter P (map f xs)) = length (filter P (map f ys))"
    by (metis size_mset)
qed

lemma scored_autos:
  fixes env opts cd
  defines "scored \<equiv> fst (scoreCandidates env opts (candidatesOf env opts) cd)"
  shows "sum_list (map tokens (filter isAutoInclude scored))
           = sum_list (map tokens (filter isAutoInclude (candidatesOf env opts)))"
    and "length (filter isAutoInclude scored)
           = length (filter isAutoInclude (candidatesOf env opts))"
proof -
  have a: "map tokens (filter isAutoInclude xs)
             = map (\<lambda>t. snd (snd (snd t))) (filter (\<lambda>t. fst (snd (snd t))) (map core xs))" for xs
    by (induction xs) (auto simp: core_def)
  have b: "length (filter isAutoInclude xs)
             = length (filter (\<lambda>t. fst (snd (snd t))) (map core xs))" for xs
    by (induction xs) (auto simp: core_def)
  show "sum_list (map tokens (filter isAutoInclude scored))
           = sum_list (map tokens (filter isAutoInclude (candidatesOf env opts)))"
    unfolding a scored_def by (rule mset_filter_sum(1)[OF scored_core])
  show "length (filter isAutoInclude scored)
           = length (filter isAutoInclude (candidatesOf env opts))"
    unfolding b scored_def by (rule mset_filter_sum(2)[OF scored_core])
qed

lemma selected_split:
  fixes env opts cd
  defines "scored \<equiv> fst (scoreCandidates env opts (candidatesOf env opts) cd)"
  defines "sel \<equiv> fst (selectWithinBudget env scored (budgetOf env opts) opts)"
  shows "\<exists>picked. sel = filter isAutoInclude scored @ picked
           \<and> (\<forall>c\<in>set picked. \<not> isAutoInclude c \<and> c \<in> set scored)
           \<and> (picked \<noteq> [] \<longrightarrow>
                 sum_list (map tokens (filter isAutoInclude scored))
                   + sum_list (map tokens picked) \<le> budgetOf env opts
               \<and> length (filter isAutoInclude scored) + length picked
                   \<le> maxFilesOf (mode opts))"
proof -
  let ?rem = "filter (\<lambda>c. \<not> isAutoInclude c) scored"
  let ?ms = "minScoreOf (mode opts) ?rem"
  from selectWithinBudget_run[of scored env "budgetOf env opts" opts]
  obtain k where k: "sel = filter isAutoInclude scored @ filter (\<lambda>c. ?ms \<le> score c) (take k ?rem)"
    and cap: "filter (\<lambda>c. ?ms \<le> score c) (take k ?rem) \<noteq> [] \<longrightarrow>
         sum_list (map tokens (filter isAutoInclude scored))
           + sum_list (map tokens (filter (\<lambda>c. ?ms \<le> score c) (take k ?rem)))
           \<le> budgetOf env opts
       \<and> length (filter isAutoInclude scored)
           + length (filter (\<lambda>c. ?ms \<le> score c) (take k ?rem))
           \<le> maxFilesOf (mode opts)"
    unfolding sel_def by blast
  have "\<forall>c\<in>set (filter (\<lambda>c. ?ms \<le> score c) (take k ?rem)). \<not> isAutoInclude c \<and> c \<in> set scored"
    by (auto dest: in_set_takeD)
  with k cap show ?thesis by blast
qed


lemma scored_has_core:
  assumes "c \<in> set (candidatesOf env opts)"
  shows "\<exists>c'\<in>set (fst (scoreCandidates env opts (candidatesOf env opts) cd)). core c' = core c"
proof -
  from assms have "core c \<in> set (map core (candidatesOf env opts))" by simp
  then have "core c \<in> set (map core (fst (scoreCandidates env opts (candidatesOf env opts) cd)))"
    using scored_core[of env opts cd] by (metis set_mset_mset)
  then show ?thesis by auto
qed

lemma selected_files_split:
  fixes env opts cd
  assumes on: "mode opts \<noteq> Off"
  defines "r \<equiv> fst (selectFiles env opts cd)"
  defines "autoTokens \<equiv> sum_list (map tokens (filter isAutoInclude (candidatesOf env opts)))"
  defines "autoCount \<equiv> length (filter isAutoInclude (candidatesOf env opts))"
  shows "\<exists>picked :: FileCandidate list.
      tokenUsage (debug r) = autoTokens + sum_list (map tokens picked)
    \<and> selectedCount (debug r) = autoCount + length picked
    \<and> length (selectedFiles r) = autoCount + length picked
    \<and> length (filter force (selectedFiles r)) = autoCount
    \<and> length (filter (\<lambda>g. \<not> force g) (selectedFiles r)) = length picked
    \<and> sum_list (map (\<lambda>g. estimateTokens env (content g)) (selectedFiles r))
        = autoTokens + sum_list (map tokens picked)
    \<and> sum_list (map (\<lambda>g. estimateTokens env (content g)) (filter force (selectedFiles r)))
        = autoTokens
    \<and> sum_list (map (\<lambda>g. estimateTokens env (content g))
          (filter (\<lambda>g. \<not> force g) (selectedFiles r)))
        = sum_list (map tokens picked)
    \<and> (picked \<noteq> [] \<longrightarrow>
          autoTokens + sum_list (map tokens picked) \<le> tokenBudget (debug r)
        \<and> autoCount + length picked \<le> maxFilesOf (mode opts))"
proof -
  let ?scored = "fst (scoreCandidates env opts (candidatesOf env opts) cd)"
  let ?autos = "filter isAutoInclude ?scored"
  let ?est = "\<lambda>g. estimateTokens env (content g)"
  from selected_split[of env opts cd] obtain picked where
    sel: "fst (selectWithinBudget env ?scored (budgetOf env opts) opts) = ?autos @ picked"
    and pk: "\<forall>c\<in>set picked. \<not> isAutoInclude c \<and> c \<in> set ?scored"
    and cap: "picked \<noteq> [] \<longrightarrow>
                 sum_list (map tokens ?autos) + sum_list (map tokens picked) \<le> budgetOf env opts
               \<and> length ?autos + length picked \<le> maxFilesOf (mode opts)"
    by blast
  have at: "sum_list (map tokens ?autos) = autoTokens" and ac: "length ?autos = autoCount"
    unfolding autoTokens_def autoCount_def by (rule scored_autos)+
  have files: "selectedFiles r = map toFile ?autos @ map toFile picked"
    unfolding r_def by (simp add: selectFiles_fields(1)[OF on] sel)
  have fa: "filter force (map toFile ?autos) = map toFile ?autos"
    by (induction ?scored) (auto simp: toFile_def filter_map comp_def)
  have fa': "filter (\<lambda>g. \<not> force g) (map toFile ?autos) = []"
    by (auto simp: toFile_def filter_map comp_def)
  have fp: "filter force (map toFile picked) = []"
    using pk by (auto simp: toFile_def filter_map comp_def)
  have fp': "filter (\<lambda>g. \<not> force g) (map toFile picked) = map toFile picked"
    using pk by (auto simp: toFile_def filter_map comp_def filter_id_conv)
  have ea: "map ?est (map toFile ?autos) = map tokens ?autos"
    by (auto simp: toFile_def scored_tokens)
  have ep: "map ?est (map toFile picked) = map tokens picked"
    using pk by (auto simp: toFile_def scored_tokens)
  have "tokenUsage (debug r) = autoTokens + sum_list (map tokens picked)"
    unfolding r_def by (simp add: selectFiles_fields(3)[OF on] sel at)
  moreover have "selectedCount (debug r) = autoCount + length picked"
    unfolding r_def by (simp add: selectFiles_fields(2)[OF on] sel ac)
  moreover have "length (selectedFiles r) = autoCount + length picked"
    by (simp add: files ac)
  moreover have "length (filter force (selectedFiles r)) = autoCount"
    by (simp add: files fa fp ac)
  moreover have "length (filter (\<lambda>g. \<not> force g) (selectedFiles r)) = length picked"
    by (simp add: files fa' fp')
  moreover have "sum_list (map ?est (selectedFiles r)) = autoTokens + sum_list (map tokens picked)"
    by (simp only: files map_append sum_list_append ea ep at)
  moreover have "sum_list (map ?est (filter force (selectedFiles r))) = autoTokens"
    by (simp only: files filter_append fa fp append_Nil2 ea at)
  moreover have "sum_list (map ?est (filter (\<lambda>g. \<not> force g) (selectedFiles r)))
        = sum_list (map tokens picked)"
    by (simp only: files filter_append fa' fp' append_Nil ep)
  moreover have "picked \<noteq> [] \<longrightarrow>
          autoTokens + sum_list (map tokens picked) \<le> tokenBudget (debug r)
        \<and> autoCount + length picked \<le> maxFilesOf (mode opts)"
    using cap unfolding r_def by (simp add: selectFiles_fields(4)[OF on] at ac)
  ultimately show ?thesis
    by blast
qed

section \<open>Auto-include preservation\<close>

text \<open>
  Claim C1. Every candidate with \<open>isAutoInclude = true\<close> appears in \<open>selectedFiles\<close>,
  whatever the candidate list, the token budget and the mode: no hypothesis on scores,
  on the file cap or on the budget is needed. In the scoring modes the file is returned
  with its \<open>force\<close> flag set; in off mode every scanned file is returned as it is.
\<close>

theorem auto_includes_always_selected:
  assumes cand: "c \<in> set (candidatesOf env opts)" and auto: "isAutoInclude c"
  shows "\<exists>g\<in>set (selectedFiles (fst (selectFiles env opts cd))).
           path g = path c \<and> content g = content c \<and> (mode opts \<noteq> Off \<longrightarrow> force g)"
proof (cases "mode opts = Off")
  case True
  from cand obtain f where "f \<in> set (extractCodebase env (appPath opts) (chatContext opts))"
    "path f = path c" "content f = content c"
    by (auto simp: candidatesOf_def prepareCandidates_def Let_def)
  with True show ?thesis
    by (auto simp: selectFiles_def selectFilesTraditional_def Let_def)
next
  case False
  let ?scored = "fst (scoreCandidates env opts (candidatesOf env opts) cd)"
  from scored_has_core[OF cand, of cd] obtain c' where c': "c' \<in> set ?scored" "core c' = core c"
    by blast
  with auto have "c' \<in> set (filter isAutoInclude ?scored)"
    by (simp add: core_def)
  with selected_split[of env opts cd]
  have "c' \<in> set (fst (selectWithinBudget env ?scored (budgetOf env opts) opts))"
    by auto
  then have "toFile c' \<in> set (selectedFiles (fst (selectFiles env opts cd)))"
    by (simp add: selectFiles_fields(1)[OF False])
  moreover from c' auto have "path (toFile c') = path c \<and> content (toFile c') = content c
      \<and> force (toFile c')"
    by (simp add: toFile_def core_def)
  ultimately show ?thesis by blast
qed

theorem auto_includes_always_selected_witness:
  "\<exists>g\<in>set (selectedFiles (fst (selectFiles demoEnv demoOptions emptyCache))).
     path g = ''login.ts'' \<and> content g = ''alpha'' \<and> force g"
  using auto_includes_always_selected[of
      "\<lparr>path = ''login.ts'', content = ''alpha'', force = True, score = 0, reasons = [],
        isAutoInclude = True, tokens = 1000\<rparr>" demoEnv demoOptions emptyCache]
  by (simp add: candidatesOf_def prepareCandidates_def demoEnv_def demoOptions_def
      demoFiles_def)

section \<open>Token budget\<close>

text \<open>
  Claim C2. In the scoring modes the total estimated tokens of \<open>selectedFiles\<close>
  (\<open>tokenUsage\<close>) is at most \<open>tokenBudget\<close>, unless the tokens of the auto-include
  candidates alone already exceed the budget (the hypothesis \<open>fits\<close> excludes exactly
  that case). \<open>tokenUsage\<close> is the sum of the estimates of the returned files, the forced
  files among them carry exactly the auto-include tokens, and the tokens of the returned
  files that are not auto-includes are at most the budget minus the tokens of the returned
  auto-includes.
\<close>

theorem budget_respected:
  fixes env opts cd
  defines "r \<equiv> fst (selectFiles env opts cd)"
  defines "autoTokens \<equiv> sum_list (map tokens (filter isAutoInclude (candidatesOf env opts)))"
  assumes on: "mode opts \<noteq> Off"
    and fits: "autoTokens \<le> tokenBudget (debug r)"
  shows "tokenUsage (debug r) \<le> tokenBudget (debug r)
    \<and> tokenUsage (debug r)
        = sum_list (map (\<lambda>g. estimateTokens env (content g)) (selectedFiles r))
    \<and> sum_list (map (\<lambda>g. estimateTokens env (content g)) (filter force (selectedFiles r)))
        = autoTokens
    \<and> int (sum_list (map (\<lambda>g. estimateTokens env (content g))
               (filter (\<lambda>g. \<not> force g) (selectedFiles r))))
        \<le> int (tokenBudget (debug r))
          - int (sum_list (map (\<lambda>g. estimateTokens env (content g))
                   (filter force (selectedFiles r))))"
proof -
  from selected_files_split[OF on, of env cd] obtain picked :: "FileCandidate list" where
    usage: "tokenUsage (debug r) = autoTokens + sum_list (map tokens picked)"
    and total: "sum_list (map (\<lambda>g. estimateTokens env (content g)) (selectedFiles r))
        = autoTokens + sum_list (map tokens picked)"
    and forced: "sum_list (map (\<lambda>g. estimateTokens env (content g))
          (filter force (selectedFiles r))) = autoTokens"
    and others: "sum_list (map (\<lambda>g. estimateTokens env (content g))
          (filter (\<lambda>g. \<not> force g) (selectedFiles r))) = sum_list (map tokens picked)"
    and cap: "picked \<noteq> [] \<longrightarrow>
          autoTokens + sum_list (map tokens picked) \<le> tokenBudget (debug r)"
    unfolding r_def autoTokens_def by blast
  have "autoTokens + sum_list (map tokens picked) \<le> tokenBudget (debug r)"
  proof (cases "picked = []")
    case True
    with fits show ?thesis by simp
  next
    case False
    with cap show ?thesis by simp
  qed
  with usage total forced others show ?thesis by simp
qed

theorem budget_respected_witness:
  "tokenUsage (debug (fst (selectFiles demoEnv demoOptions emptyCache))) \<le> 5000"
proof -
  have "tokenBudget (debug (fst (selectFiles demoEnv demoOptions emptyCache))) = 5000"
    by (simp add: selectFiles_def Let_def demoOptions_def)
  moreover have "mode demoOptions \<noteq> Off"
    by (simp add: demoOptions_def)
  moreover have "sum_list (map tokens (filter isAutoInclude (candidatesOf demoEnv demoOptions)))
      = 1000"
    by (simp add: candidatesOf_def prepareCandidates_def demoEnv_def demoOptions_def
        demoFiles_def)
  ultimately show ?thesis
    using budget_respected[where env = demoEnv and opts = demoOptions and cd = emptyCache]
    by simp
qed

section \<open>File cap\<close>

text \<open>
  Claim C3, as the code has it. The claim that the number of selected files never exceeds
  \<open>maxFiles(mode)\<close> fails when there are more auto-include candidates than the cap: below,
  nine forced files in conservative mode give nine selected files against a cap of eight.
\<close>

theorem file_cap_counterexample:
  "selectedCount (debug (fst (selectFiles (demoEnv\<lparr>extractCodebase := (\<lambda>_ _. nineForced)\<rparr>)
       (demoOptions\<lparr>mode := Conservative\<rparr>) emptyCache))) = 9
   \<and> maxFilesOf (mode (demoOptions\<lparr>mode := Conservative\<rparr>)) = 8"
proof -
  let ?env = "demoEnv\<lparr>extractCodebase := (\<lambda>_ _. nineForced)\<rparr>"
  let ?opts = "demoOptions\<lparr>mode := Conservative\<rparr>"
  have on: "mode ?opts \<noteq> Off" by simp
  have nine: "length (filter isAutoInclude (candidatesOf ?env ?opts)) = 9"
    by (simp add: candidatesOf_def prepareCandidates_def nineForced_def Let_def)
  have mf: "maxFilesOf (mode ?opts) = 8"
    by (simp add: maxFilesOf_def)
  from selected_files_split[OF on, of ?env emptyCache] obtain picked :: "FileCandidate list" where
    "selectedCount (debug (fst (selectFiles ?env ?opts emptyCache))) = 9 + length picked"
    "picked \<noteq> [] \<longrightarrow> 9 + length picked \<le> 8"
    unfolding nine mf by blast
  then have "selectedCount (debug (fst (selectFiles ?env ?opts emptyCache))) = 9"
    by (cases "picked = []") simp_all
  with mf show ?thesis by simp
qed

text \<open>
  Claim C3, amended. In the scoring modes all auto-include candidates are selected without
  regard to the cap, and they count against it: at most \<open>maxFiles(mode) - autoCount\<close>
  other files are added. So the number of selected files is at most the larger of
  \<open>maxFiles(mode)\<close> and the number of auto-include candidates, and at most
  \<open>maxFiles(mode)\<close> whenever the auto-includes do not exceed the cap themselves;
  \<open>maxFiles\<close> is 8 in conservative and 20 in balanced mode.
\<close>

theorem file_cap_counts_auto_includes:
  fixes env opts cd
  defines "r \<equiv> fst (selectFiles env opts cd)"
  defines "autoCount \<equiv> length (filter isAutoInclude (candidatesOf env opts))"
  assumes on: "mode opts \<noteq> Off"
  shows "selectedCount (debug r) = length (selectedFiles r)
    \<and> length (filter force (selectedFiles r)) = autoCount
    \<and> length (filter (\<lambda>g. \<not> force g) (selectedFiles r)) \<le> maxFilesOf (mode opts) - autoCount
    \<and> selectedCount (debug r) \<le> max (maxFilesOf (mode opts)) autoCount
    \<and> (autoCount \<le> maxFilesOf (mode opts) \<longrightarrow> selectedCount (debug r) \<le> maxFilesOf (mode opts))
    \<and> maxFilesOf Conservative = 8 \<and> maxFilesOf Balanced = 20"
proof -
  from selected_files_split[OF on, of env cd] obtain picked :: "FileCandidate list" where
    "selectedCount (debug r) = autoCount + length picked"
    "length (selectedFiles r) = autoCount + length picked"
    "length (filter force (selectedFiles r)) = autoCount"
    "length (filter (\<lambda>g. \<not> force g) (selectedFiles r)) = length picked"
    "picked \<noteq> [] \<longrightarrow> autoCount + length picked \<le> maxFilesOf (mode opts)"
    unfolding r_def autoCount_def by blast
  then show ?thesis
    by (cases "picked = []") (auto simp: maxFilesOf_def)
qed

theorem file_cap_counts_auto_includes_witness:
  "selectedCount (debug (fst (selectFiles demoEnv demoOptions emptyCache))) \<le> 20"
proof -
  have "mode demoOptions \<noteq> Off"
    by (simp add: demoOptions_def)
  moreover have "length (filter isAutoInclude (candidatesOf demoEnv demoOptions)) = 1"
    by (simp add: candidatesOf_def prepareCandidates_def demoEnv_def demoOptions_def
        demoFiles_def)
  moreover have "mode demoOptions = Balanced"
    by (simp add: demoOptions_def)
  ultimately show ?thesis
    using file_cap_counts_auto_includes[where env = demoEnv and opts = demoOptions
        and cd = emptyCache]
    by auto
qed

section \<open>Threshold\<close>

lemma clamp_max_min:
  assumes "0 < n" "0 \<le> f"
  shows "max 0 (min (int n - 1) f) = clamp f 0 (int n - 1)"
    and "nat (clamp f 0 (int n - 1)) < n"
  using assms unfolding clamp_def by (simp_all, linarith+)

lemma floorTimes_nonneg: "0 \<le> floorTimes n m"
  by (simp add: floorTimes_def Let_def)

lemma minScoreOf_spec: "minScoreOf m remaining = minScoreSpec m (sort (map score remaining))"
proof (cases "remaining = []")
  case True
  then show ?thesis
    by (simp add: minScoreOf_def minScoreSpec_def percentileCutOf_def Let_def)
next
  case False
  define f where "f = floorTimes (length remaining) (pctOf m)"
  from False have n: "0 < length remaining" by simp
  have nn: "0 \<le> f" unfolding f_def by (rule floorTimes_nonneg)
  have ne: "sort (map score remaining) \<noteq> []"
    using False by (metis length_sort length_map length_0_conv)
  show ?thesis
    using ne clamp_max_min[OF n nn]
    by (simp add: minScoreOf_def minScoreSpec_def percentileCutOf_def Let_def
        f_def[symmetric])
qed

lemma minScoreSpec_claimed:
  assumes "floorTimes (length scores) (pctOf m) = \<lfloor>real (length scores) * pctExact m\<rfloor>"
  shows "minScoreSpec m scores = minScoreClaimed m scores"
  using assms by (simp add: minScoreSpec_def minScoreClaimed_def Let_def)

lemma pct_is_nearest_double: "\<bar>real (pctOf m) / 2 ^ 53 - pctExact m\<bar> \<le> 1 / 2 ^ 54"
  by (simp add: pctOf_def pctExact_def)

lemma floorlog_two_files: "floorlog 2 12610078956637388 = 54"
  by (simp add: compute_floorlog)

lemma floorTimes_two_files: "floorTimes 2 (pctOf Balanced) = 1"
  by (simp add: floorTimes_def roundToEven_def pctOf_def Let_def floorlog_two_files)

lemma demo_minScore: "minScoreOf Balanced [bigHigh, smallLow] = 1"
proof -
  have "sort (map score [bigHigh, smallLow]) = [0.1, 1]"
    by (simp add: bigHigh_def smallLow_def)
  moreover have "percentileCutOf Balanced [0.1, 1] = 1"
    using floorTimes_two_files by (simp add: percentileCutOf_def Let_def numeral_2_eq_2)
  ultimately show ?thesis
    by (simp add: minScoreOf_def Let_def)
qed

lemma floorlog_ninety_files: "floorlog 2 567453553048682460 = 59"
  by (simp add: compute_floorlog)

lemma floorTimes_ninety_files: "floorTimes 90 (pctOf Balanced) = 62"
  by (simp add: floorTimes_def roundToEven_def pctOf_def Let_def floorlog_ninety_files)

lemma ninety_scores: "sort (map score ninety) = map real [0..<90]"
proof -
  have "map score ninety = map real [0..<90]"
    by (simp add: ninety_def comp_def)
  moreover have "sorted (map real [0..<90])"
    by (simp add: sorted_map sorted_wrt_iff_nth_less)
  ultimately show ?thesis
    by (simp add: sorted_sort_id)
qed

lemma ninety_minScore: "minScoreOf Balanced ninety = 62"
proof -
  have "percentileCutOf Balanced (map real [0..<90]) = 62"
    by (simp add: percentileCutOf_def Let_def floorTimes_ninety_files)
  then show ?thesis
    by (simp add: minScoreOf_def Let_def ninety_scores)
qed

lemma ninety_minScoreClaimed: "minScoreClaimed Balanced (sort (map score ninety)) = 63"
  by (simp add: minScoreClaimed_def Let_def ninety_scores pctExact_def clamp_def)

lemma ninety_remaining: "filter (\<lambda>c. \<not> isAutoInclude c) ninety = ninety"
  by (simp add: ninety_def filter_map comp_def)

text \<open>
  Claim C8, as the code has it. The part of the claim that every candidate below the
  threshold receives the reason fails: the loop stops at the first candidate at or above
  the threshold that exceeds the budget (or meets the file cap), and a candidate behind it
  is never visited. Below, the first candidate needs 100 tokens of a budget of 50; the
  second one is below the threshold, is not selected, and keeps its empty reasons.

  The index of the percentile cut is not always \<open>\<lfloor>len \<cdot> pct\<rfloor>\<close> either: the code floors
  the double product. With ninety candidates in balanced mode the double product of 90
  and 0.7 is just below 63, so the code cuts at index 62, where the claim's formula gives
  index 63; with the scores 0 to 89 the threshold is 62 instead of 63.
\<close>

theorem unvisited_candidate_counterexample:
  "score smallLow < minScoreOf (mode demoOptions) (filter (\<lambda>c. \<not> isAutoInclude c) [bigHigh, smallLow])
   \<and> smallLow \<notin> set (fst (selectWithinBudget demoEnv [bigHigh, smallLow] 50 demoOptions))
   \<and> snd (selectWithinBudget demoEnv [bigHigh, smallLow] 50 demoOptions) = [bigHigh, smallLow]
   \<and> reasons smallLow = []
   \<and> minScoreOf (mode demoOptions) (filter (\<lambda>c. \<not> isAutoInclude c) ninety) = 62
   \<and> minScoreClaimed (mode demoOptions)
        (sort (map score (filter (\<lambda>c. \<not> isAutoInclude c) ninety))) = 63"
proof -
  have m: "mode demoOptions = Balanced" by (simp add: demoOptions_def)
  have na: "\<not> isAutoInclude bigHigh" "\<not> isAutoInclude smallLow"
    by (simp_all add: bigHigh_def smallLow_def)
  then have f: "filter (\<lambda>c. \<not> isAutoInclude c) [bigHigh, smallLow] = [bigHigh, smallLow]"
    "filter isAutoInclude [bigHigh, smallLow] = []"
    by simp_all
  have "selectWithinBudget demoEnv [bigHigh, smallLow] 50 demoOptions = ([], [bigHigh, smallLow])"
    using na by (simp add: selectWithinBudget_def Let_def m demo_minScore maxFilesOf_def)
       (simp add: bigHigh_def)
  then have "score smallLow < minScoreOf (mode demoOptions) (filter (\<lambda>c. \<not> isAutoInclude c) [bigHigh, smallLow])
   \<and> smallLow \<notin> set (fst (selectWithinBudget demoEnv [bigHigh, smallLow] 50 demoOptions))
   \<and> snd (selectWithinBudget demoEnv [bigHigh, smallLow] 50 demoOptions) = [bigHigh, smallLow]
   \<and> reasons smallLow = []"
    using na by (simp add: f m demo_minScore) (simp add: smallLow_def)
  then show ?thesis
    by (simp only: m ninety_remaining ninety_minScore ninety_minScoreClaimed simp_thms)
qed

text \<open>
  Claim C8, amended. The threshold is \<open>max(percentileCut, 0.15)\<close>, where \<open>percentileCut\<close> is
  the score at the clamped index of the ascending score list (0 for the empty list) and
  the index is the floor of the product \<open>len \<cdot> pct\<close> as the code computes it in double
  precision, \<open>pct\<close> being the double nearest to 0.85 in conservative mode and to 0.70
  otherwise. Whenever that floor equals \<open>\<lfloor>len \<cdot> pct\<rfloor>\<close> of the exact product, the threshold
  is the one the claim words. Every candidate that is not an auto-include and scores
  below the threshold is excluded from the selection. The loop visits \<open>remaining\<close> in order
  up to some index \<open>k\<close>: the visited candidates at or above the threshold are selected, the
  visited ones below it receive the "filtered: below threshold" reason, and the candidates
  from \<open>k\<close> on are left as they were; the loop stops before the end only at a candidate at
  or above the threshold that meets the file cap or exceeds the budget.
\<close>

theorem threshold_filtering:
  fixes env candidates budget opts
  defines "autos \<equiv> filter isAutoInclude candidates"
    and "remaining \<equiv> filter (\<lambda>c. \<not> isAutoInclude c) candidates"
  defines "minScore \<equiv> minScoreOf (mode opts) remaining"
  defines "res \<equiv> selectWithinBudget env candidates budget opts"
  shows "\<bar>real (pctOf (mode opts)) / 2 ^ 53 - pctExact (mode opts)\<bar> \<le> 1 / 2 ^ 54
    \<and> minScore = minScoreSpec (mode opts) (sort (map score remaining))
    \<and> (floorTimes (length remaining) (pctOf (mode opts))
          = \<lfloor>real (length remaining) * pctExact (mode opts)\<rfloor>
        \<longrightarrow> minScore = minScoreClaimed (mode opts) (sort (map score remaining)))
    \<and> (\<forall>c\<in>set remaining. score c < minScore \<longrightarrow> c \<notin> set (fst res))
    \<and> (\<exists>k\<le>length remaining.
          fst res = autos @ filter (\<lambda>c. minScore \<le> score c) (take k remaining)
        \<and> snd res = map (mark env minScore) (take k remaining) @ drop k remaining
        \<and> (k < length remaining \<longrightarrow>
              minScore \<le> score (remaining ! k)
            \<and> (maxFilesOf (mode opts) \<le> length (fst res)
               \<or> budget < sum_list (map tokens (fst res)) + tokens (remaining ! k))))"
proof -
  from selectWithinBudget_run[of candidates env budget opts] obtain k where
    k: "k \<le> length remaining"
    and sel: "fst res = autos @ filter (\<lambda>c. minScore \<le> score c) (take k remaining)"
    and rest: "snd res = map (mark env minScore) (take k remaining) @ drop k remaining"
    and stop: "k < length remaining \<longrightarrow> minScore \<le> score (remaining ! k)
         \<and> (maxFilesOf (mode opts)
               \<le> length autos + length (filter (\<lambda>c. minScore \<le> score c) (take k remaining))
            \<or> budget < sum_list (map tokens autos)
                 + sum_list (map tokens (filter (\<lambda>c. minScore \<le> score c) (take k remaining)))
                 + tokens (remaining ! k))"
    unfolding autos_def remaining_def minScore_def res_def by blast
  have spec: "minScore = minScoreSpec (mode opts) (sort (map score remaining))"
    unfolding minScore_def by (rule minScoreOf_spec)
  have claimed: "floorTimes (length remaining) (pctOf (mode opts))
          = \<lfloor>real (length remaining) * pctExact (mode opts)\<rfloor>
        \<longrightarrow> minScore = minScoreClaimed (mode opts) (sort (map score remaining))"
  proof
    assume "floorTimes (length remaining) (pctOf (mode opts))
          = \<lfloor>real (length remaining) * pctExact (mode opts)\<rfloor>"
    then have "floorTimes (length (sort (map score remaining))) (pctOf (mode opts))
          = \<lfloor>real (length (sort (map score remaining))) * pctExact (mode opts)\<rfloor>"
      by simp
    then show "minScore = minScoreClaimed (mode opts) (sort (map score remaining))"
      unfolding spec by (rule minScoreSpec_claimed)
  qed
  have excl: "\<forall>c\<in>set remaining. score c < minScore \<longrightarrow> c \<notin> set (fst res)"
    unfolding sel by (auto simp: autos_def remaining_def)
  have "k < length remaining \<longrightarrow>
              minScore \<le> score (remaining ! k)
            \<and> (maxFilesOf (mode opts) \<le> length (fst res)
               \<or> budget < sum_list (map tokens (fst res)) + tokens (remaining ! k))"
    using stop unfolding sel by simp
  with k sel rest have run: "\<exists>k\<le>length remaining.
          fst res = autos @ filter (\<lambda>c. minScore \<le> score c) (take k remaining)
        \<and> snd res = map (mark env minScore) (take k remaining) @ drop k remaining
        \<and> (k < length remaining \<longrightarrow>
              minScore \<le> score (remaining ! k)
            \<and> (maxFilesOf (mode opts) \<le> length (fst res)
               \<or> budget < sum_list (map tokens (fst res)) + tokens (remaining ! k)))"
    by blast
  from pct_is_nearest_double[of "mode opts"] spec claimed excl run show ?thesis
    by (intro conjI)
qed

theorem threshold_filtering_witness:
  "smallLow \<notin> set (fst (selectWithinBudget demoEnv [bigHigh, smallLow] 5000 demoOptions))
   \<and> minScoreOf (mode demoOptions) [bigHigh, smallLow]
       = minScoreClaimed (mode demoOptions) (sort (map score [bigHigh, smallLow]))"
proof -
  have m: "mode demoOptions = Balanced" by (simp add: demoOptions_def)
  have na: "\<not> isAutoInclude bigHigh" "\<not> isAutoInclude smallLow"
    by (simp_all add: bigHigh_def smallLow_def)
  have low: "score smallLow < 1" by (simp add: smallLow_def)
  have agree: "floorTimes (Suc (Suc 0)) (pctOf Balanced) = \<lfloor>real (Suc (Suc 0)) * pctExact Balanced\<rfloor>"
    using floorTimes_two_files by (simp add: pctExact_def numeral_2_eq_2)
  show ?thesis
    using threshold_filtering[where env = demoEnv and candidates = "[bigHigh, smallLow]"
        and budget = 5000 and opts = demoOptions] na low agree
    by (simp add: m demo_minScore)
qed

section \<open>Keyword extraction\<close>

lemma set_firstOccurrences: "set (firstOccurrences xs) = set xs"
  by (induction xs rule: firstOccurrences.induct) auto

lemma distinct_firstOccurrences: "distinct (firstOccurrences xs)"
  by (induction xs rule: firstOccurrences.induct) (auto simp: set_firstOccurrences)

lemma fold_push_new:
  "fold (\<lambda>t out. if P t \<and> t \<notin> set out then out @ [t] else out) raw acc
     = acc @ firstOccurrences (filter (\<lambda>t. P t \<and> t \<notin> set acc) raw)"
proof (induction raw arbitrary: acc)
  case Nil
  show ?case by simp
next
  case (Cons x xs)
  show ?case
  proof (cases "P x \<and> x \<notin> set acc")
    case True
    have "filter (\<lambda>t. P t \<and> t \<notin> set (acc @ [x])) xs
            = filter (\<lambda>y. y \<noteq> x) (filter (\<lambda>t. P t \<and> t \<notin> set acc) xs)"
      by (induction xs) auto
    with True Cons.IH[of "acc @ [x]"] show ?thesis by simp
  next
    case False
    with Cons.IH[of acc] show ?thesis by auto
  qed
qed

lemma extractKeywords_spec: "extractKeywords text = extractKeywordsSpec text"
  using fold_push_new[of "\<lambda>t. t \<notin> set keywordStopWords" "rawKeywords text" "[]"]
  by (simp add: extractKeywords_def extractKeywordsSpec_def Let_def)


lemma toLowerChar_not_upper: "toLowerChar c \<notin> set upperChars"
proof (cases "c \<in> set upperChars")
  case True
  then show ?thesis unfolding toLowerChar_def upperChars_def lowerChars_def by auto
next
  case False
  then have "map_of (zip upperChars lowerChars) c = None"
    by (simp add: map_of_eq_None_iff upperChars_def lowerChars_def)
  with False show ?thesis by (simp add: toLowerChar_def)
qed

lemma set_replaceNonWordRuns:
  "set (replaceNonWordRuns b s) \<subseteq> {CHR '' ''} \<union> {c \<in> set s. isWordChar c \<and> c \<noteq> CHR ''_''}"
  by (induction s arbitrary: b) auto


lemma set_splitWs:
  "t \<in> set (splitWs b cur s) \<Longrightarrow> c \<in> set t \<Longrightarrow> c \<in> set cur \<or> (c \<in> set s \<and> \<not> isSpaceChar c)"
proof (induction s arbitrary: b cur)
  case Nil
  then show ?case by simp
next
  case (Cons x xs)
  show ?case
  proof (cases "isSpaceChar x")
    case False
    with Cons.prems have "t \<in> set (splitWs False (cur @ [x]) xs)" by simp
    from Cons.IH[OF this Cons.prems(2)] False show ?thesis by auto
  next
    case True
    show ?thesis
    proof (cases b)
      case True
      with \<open>isSpaceChar x\<close> Cons.prems have "t \<in> set (splitWs True cur xs)" by simp
      from Cons.IH[OF this Cons.prems(2)] show ?thesis by auto
    next
      case False
      with \<open>isSpaceChar x\<close> Cons.prems have "t = cur \<or> t \<in> set (splitWs True [] xs)" by simp
      then show ?thesis
      proof
        assume "t = cur"
        with Cons.prems(2) show ?thesis by simp
      next
        assume "t \<in> set (splitWs True [] xs)"
        from Cons.IH[OF this Cons.prems(2)] show ?thesis by auto
      qed
    qed
  qed
qed

lemma word_not_upper_is_lower_or_digit:
  "isWordChar c \<Longrightarrow> c \<noteq> CHR ''_'' \<Longrightarrow> c \<notin> set upperChars \<Longrightarrow> c \<in> set (lowerChars @ digitChars)"
  by (simp add: isWordChar_def)

lemma space_isSpaceChar: "isSpaceChar (CHR '' '')"
  by (simp add: isSpaceChar_def)

lemma rawKeywords_chars:
  assumes "t \<in> set (rawKeywords text)" and c: "c \<in> set t"
  shows "c \<in> set (lowerChars @ digitChars)"
proof -
  from assms have "t \<in> set (splitWs False [] (replaceNonWordRuns False (toLowerCase text)))"
    by (simp add: rawKeywords_def split_ws_def)
  from set_splitWs[OF this c]
  have in_repl: "c \<in> set (replaceNonWordRuns False (toLowerCase text))" and ns: "\<not> isSpaceChar c"
    by simp_all
  from ns have "c \<noteq> CHR '' ''" using space_isSpaceChar by blast
  with in_repl set_replaceNonWordRuns[of False "toLowerCase text"]
  have lw: "c \<in> set (toLowerCase text)" and w: "isWordChar c" and u: "c \<noteq> CHR ''_''"
    by blast+
  from lw have "c \<notin> set upperChars"
    using toLowerChar_not_upper by (auto simp: toLowerCase_def)
  with w u show ?thesis by (rule word_not_upper_is_lower_or_digit)
qed

lemma demo_keywords: "extractKeywords demoText = [''login'', ''form'', ''users'']"
  by (simp add: extractKeywords_def rawKeywords_def demoText_def toLowerCase_def toLowerChar_def
      upperChars_def lowerChars_def digitChars_def isWordChar_def isSpaceChar_def split_ws_def
      keywordStopWords_def Let_def)

text \<open>
  Claim C10. For every input text \<^verbatim>\<open>extractKeywords\<close> returns at most 15 keywords; they
  are distinct, consist of lower-case letters and digits only, have length 3 to 40, are
  not stopwords of the extractor, and stand in the order of their first occurrence in the
  text (the list is the first-occurrence list of the non-stopword tokens, cut to 15). The
  post-scoring pass of \<^verbatim>\<open>scoreCandidates\<close> adjusts every candidate from this keyword list
  alone.
\<close>

theorem extractKeywords_properties:
  "length (extractKeywords text) \<le> 15
   \<and> distinct (extractKeywords text)
   \<and> (\<forall>k\<in>set (extractKeywords text).
         3 \<le> length k \<and> length k \<le> 40
       \<and> k \<notin> set keywordStopWords
       \<and> set k \<subseteq> set (lowerChars @ digitChars))
   \<and> extractKeywords text = extractKeywordsSpec text
   \<and> fst (scoreCandidates env opts candidates cd)
       = sortByScoreDesc
           (map (keywordAdjust env (extractKeywordsSpec (buildQuery (promptContext opts))))
                (fst (baseScore env opts (buildQuery (promptContext opts)) candidates cd)))"
proof -
  let ?all = "firstOccurrences (filter (\<lambda>t. t \<notin> set keywordStopWords) (rawKeywords text))"
  have eq: "extractKeywords text = take 15 ?all"
    using extractKeywords_spec[of "text"] by (simp add: extractKeywordsSpec_def)
  have len: "length (extractKeywords text) \<le> 15"
    by (simp add: eq)
  have dist: "distinct (extractKeywords text)"
    unfolding eq by (rule distinct_take[OF distinct_firstOccurrences])
  have mem: "\<forall>k\<in>set (extractKeywords text).
         3 \<le> length k \<and> length k \<le> 40
       \<and> k \<notin> set keywordStopWords
       \<and> set k \<subseteq> set (lowerChars @ digitChars)"
  proof
    fix k assume "k \<in> set (extractKeywords text)"
    then have "k \<in> set ?all" unfolding eq by (rule in_set_takeD)
    then have raw: "k \<in> set (rawKeywords text)" and ns: "k \<notin> set keywordStopWords"
      by (simp_all add: set_firstOccurrences)
    from raw have "3 \<le> length k \<and> length k \<le> 40"
      by (simp add: rawKeywords_def)
    moreover have "set k \<subseteq> set (lowerChars @ digitChars)"
      using rawKeywords_chars[OF raw] by blast
    ultimately show "3 \<le> length k \<and> length k \<le> 40
       \<and> k \<notin> set keywordStopWords
       \<and> set k \<subseteq> set (lowerChars @ digitChars)"
      using ns by simp
  qed
  have sc: "fst (scoreCandidates env opts candidates cd)
       = sortByScoreDesc
           (map (keywordAdjust env (extractKeywordsSpec (buildQuery (promptContext opts))))
                (fst (baseScore env opts (buildQuery (promptContext opts)) candidates cd)))"
    by (simp add: scoreCandidates_def Let_def extractKeywords_spec)
  from len dist mem extractKeywords_spec[of "text"] sc show ?thesis by blast
qed

theorem extractKeywords_properties_witness:
  "extractKeywordsSpec demoText = [''login'', ''form'', ''users'']
   \<and> length (extractKeywords demoText) \<le> 15
   \<and> 3 \<le> length ''login'' \<and> length ''login'' \<le> 40
   \<and> set ''login'' \<subseteq> set (lowerChars @ digitChars)
   \<and> ''login'' \<notin> set keywordStopWords"
proof -
  have "''login'' \<in> set (extractKeywords demoText)"
    by (simp add: demo_keywords)
  with extractKeywords_properties[of demoText demoEnv demoOptions "[]" emptyCache]
  have "extractKeywords demoText = extractKeywordsSpec demoText"
    and "length (extractKeywords demoText) \<le> 15"
    and "3 \<le> length ''login'' \<and> length ''login'' \<le> 40
       \<and> ''login'' \<notin> set keywordStopWords
       \<and> set ''login'' \<subseteq> set (lowerChars @ digitChars)"
    by blast+
  then show ?thesis
    by (simp only: demo_keywords[symmetric]) simp
qed

section \<open>TF-IDF score\<close>

lemma fold_count:
  "fold (\<lambda>token tf. tf(token \<mapsto> (case tf token of None \<Rightarrow> 0 | Some n \<Rightarrow> n) + 1)) toks m t
     = (if t \<in> set toks
        then Some ((case m t of None \<Rightarrow> 0 | Some n \<Rightarrow> n) + real (count_list toks t))
        else m t)"
  by (induction toks arbitrary: m) auto

lemma getOrZero_computeTF: "getOrZero (computeTF toks) t = tfSpec toks t"
  by (simp add: getOrZero_def computeTF_def countTokens_def fold_count tfSpec_def)

lemma fold_idf:
  "fold (\<lambda>term cache. cache(term \<mapsto> h term)) vocab m t
     = (if t \<in> set vocab then Some (h t) else m t)"
  by (induction vocab arbitrary: m) auto

lemma getOrZero_idfCache:
  "getOrZero (idfCache (newTFIDFScorer fs)) t = idfSpec (documents (newTFIDFScorer fs)) t"
proof -
  let ?docs = "documents (newTFIDFScorer fs)"
  have v: "t \<in> set (vocabulary (newTFIDFScorer fs)) \<longleftrightarrow> list_ex (\<lambda>d. t \<in> set (docTokens d)) ?docs"
    by (auto simp: newTFIDFScorer_def Let_def list_ex_iff)
  have c: "idfCache (newTFIDFScorer fs) = computeIDF ?docs (vocabulary (newTFIDFScorer fs))"
    by (simp add: newTFIDFScorer_def Let_def)
  show ?thesis
    unfolding c computeIDF_def Let_def fold_idf getOrZero_def idfSpec_def
    using v by (simp add: add.commute)
qed

lemma fold_add_real: "fold (\<lambda>t sc. sc + h t) ts (a::real) = a + sum_list (map h ts)"
  by (induction ts arbitrary: a) auto

lemma scoreDocument_sum:
  assumes "find (\<lambda>d. docPath d = p) (documents (newTFIDFScorer fs)) = Some doc"
  shows "scoreDocument (newTFIDFScorer fs) p query
           = sum_list (map (\<lambda>t. tfSpec (docTokens doc) t * idfSpec (documents (newTFIDFScorer fs)) t)
                           (tokenize query))"
  using assms
  by (simp add: scoreDocument_def Let_def fold_add_real getOrZero_computeTF getOrZero_idfCache)

lemma sum_list_count_set:
  fixes h :: "'a \<Rightarrow> real"
  shows "sum_list (map h xs) = (\<Sum>x\<in>set xs. real (count_list xs x) * h x)"
proof (induction xs)
  case Nil
  show ?case by simp
next
  case (Cons a xs)
  have split: "real (count_list (a # xs) x) * h x
      = (if x = a then h a else 0) + real (count_list xs x) * h x" for x
    by (simp add: algebra_simps)
  have rest: "(\<Sum>x\<in>set (a # xs). real (count_list xs x) * h x)
      = (\<Sum>x\<in>set xs. real (count_list xs x) * h x)"
  proof (cases "a \<in> set xs")
    case True
    then show ?thesis by (simp add: insert_absorb)
  next
    case False
    then show ?thesis by (simp add: count_list_0_iff)
  qed
  have "(\<Sum>x\<in>set (a # xs). real (count_list (a # xs) x) * h x)
      = (\<Sum>x\<in>set (a # xs). (if x = a then h a else 0))
        + (\<Sum>x\<in>set (a # xs). real (count_list xs x) * h x)"
    by (simp only: split sum.distrib)
  also have "(\<Sum>x\<in>set (a # xs). (if x = a then h a else 0)) = h a"
    by (simp add: sum.delta)
  finally show ?case
    using Cons.IH rest by simp
qed

lemma sum_list_count_real:
  fixes h :: "'a \<Rightarrow> real"
  shows "sum_list (map h xs) = sum_list (map (\<lambda>t. real (count_list xs t) * h t) (remdups xs))"
proof -
  have "sum_list (map (\<lambda>t. real (count_list xs t) * h t) (remdups xs))
      = (\<Sum>x\<in>set (remdups xs). real (count_list xs x) * h x)"
    by (rule sum.distinct_set_conv_list[symmetric]) simp
  then show ?thesis
    by (simp add: sum_list_count_set)
qed


lemmas tokenize_eval =
  tokenize_def split_ws_def toLowerCase_def toLowerChar_def upperChars_def lowerChars_def
  digitChars_def isWordChar_def isSpaceChar_def isStopWord_def tfidfStopWords_def

lemma threeDocs_documents:
  "documents (newTFIDFScorer threeDocs)
     = [\<lparr>docPath = ''a.ts'', docTokens = [''foo'']\<rparr>,
        \<lparr>docPath = ''b.ts'', docTokens = [''bar'']\<rparr>,
        \<lparr>docPath = ''c.ts'', docTokens = [''baz'']\<rparr>]"
  by (simp add: newTFIDFScorer_def threeDocs_def Let_def tokenize_eval)

lemma tokenize_foo_foo: "tokenize ''foo foo'' = [''foo'', ''foo'']"
  by (simp add: tokenize_eval)

text \<open>
  Claim C6, as the code has it. The score is not a sum over the distinct query tokens:
  \<^verbatim>\<open>scoreDocument\<close> loops over the tokenized query as it is, so a token that occurs twice
  in the query is added twice. In a corpus of three one-word documents the query
  "foo foo" scores \<open>2 \<cdot> ln(3/2)\<close> for the document "foo", where the claim gives
  \<open>ln(3/2)\<close>.
\<close>

theorem repeated_query_token_counterexample:
  "scoreDocument (newTFIDFScorer threeDocs) ''a.ts'' ''foo foo'' = 2 * ln (3 / 2)
   \<and> tfidfDistinctSpec (documents (newTFIDFScorer threeDocs))
        \<lparr>docPath = ''a.ts'', docTokens = [''foo'']\<rparr> ''foo foo'' = ln (3 / 2)
   \<and> scoreDocument (newTFIDFScorer threeDocs) ''a.ts'' ''foo foo''
        \<noteq> tfidfDistinctSpec (documents (newTFIDFScorer threeDocs))
            \<lparr>docPath = ''a.ts'', docTokens = [''foo'']\<rparr> ''foo foo''"
proof -
  have f: "find (\<lambda>d. docPath d = ''a.ts'') (documents (newTFIDFScorer threeDocs))
             = Some \<lparr>docPath = ''a.ts'', docTokens = [''foo'']\<rparr>"
    by (simp add: threeDocs_documents)
  have code: "scoreDocument (newTFIDFScorer threeDocs) ''a.ts'' ''foo foo'' = 2 * ln (3 / 2)"
    unfolding scoreDocument_sum[OF f] tokenize_foo_foo threeDocs_documents
    by (simp add: tfSpec_def idfSpec_def)
  have spec: "tfidfDistinctSpec (documents (newTFIDFScorer threeDocs))
        \<lparr>docPath = ''a.ts'', docTokens = [''foo'']\<rparr> ''foo foo'' = ln (3 / 2)"
    unfolding tfidfDistinctSpec_def tokenize_foo_foo threeDocs_documents
    by (simp add: tfSpec_def idfSpec_def)
  show ?thesis
    unfolding code spec by simp
qed

text \<open>
  Claim C6, amended. For the document that \<^verbatim>\<open>scoreDocument\<close> finds under a path, the score
  is the sum over all tokens of the tokenized query, repetitions included, of
  \<open>tf(doc, t) \<cdot> idf(t)\<close>; equivalently each distinct query token contributes
  \<open>tf \<cdot> idf\<close> once per occurrence in the query. \<open>tf\<close> is the raw count over the document's
  token length, and terms missing from the document or the vocabulary contribute zero.
\<close>

theorem tfidf_sums_over_all_query_tokens:
  fixes fs :: "'a CodebaseFile_scheme list"
  defines "scorer \<equiv> newTFIDFScorer fs"
  assumes found: "find (\<lambda>d. docPath d = p) (documents scorer) = Some doc"
  shows "scoreDocument scorer p query
           = sum_list (map (\<lambda>t. tfSpec (docTokens doc) t * idfSpec (documents scorer) t)
                           (tokenize query))
    \<and> scoreDocument scorer p query
           = sum_list (map (\<lambda>t. real (count_list (tokenize query) t)
                                  * (tfSpec (docTokens doc) t * idfSpec (documents scorer) t))
                           (remdups (tokenize query)))
    \<and> (\<forall>t. t \<notin> set (docTokens doc) \<longrightarrow> tfSpec (docTokens doc) t = 0)
    \<and> (\<forall>t. \<not> list_ex (\<lambda>d. t \<in> set (docTokens d)) (documents scorer)
            \<longrightarrow> idfSpec (documents scorer) t = 0)
    \<and> documents scorer
         = map (\<lambda>f. \<lparr>docPath = path f, docTokens = tokenize (content f)\<rparr>) fs"
proof -
  have all: "scoreDocument scorer p query
           = sum_list (map (\<lambda>t. tfSpec (docTokens doc) t * idfSpec (documents scorer) t)
                           (tokenize query))"
    using found unfolding scorer_def by (rule scoreDocument_sum)
  have "scoreDocument scorer p query
           = sum_list (map (\<lambda>t. real (count_list (tokenize query) t)
                                  * (tfSpec (docTokens doc) t * idfSpec (documents scorer) t))
                           (remdups (tokenize query)))"
    unfolding all by (rule sum_list_count_real)
  moreover have "\<forall>t. t \<notin> set (docTokens doc) \<longrightarrow> tfSpec (docTokens doc) t = 0"
    by (simp add: tfSpec_def count_list_0_iff)
  moreover have "\<forall>t. \<not> list_ex (\<lambda>d. t \<in> set (docTokens d)) (documents scorer)
            \<longrightarrow> idfSpec (documents scorer) t = 0"
    by (simp add: idfSpec_def)
  moreover have "documents scorer
         = map (\<lambda>f. \<lparr>docPath = path f, docTokens = tokenize (content f)\<rparr>) fs"
    by (simp add: scorer_def newTFIDFScorer_def Let_def)
  ultimately show ?thesis using all by blast
qed

theorem tfidf_sums_over_all_query_tokens_witness:
  "scoreDocument (newTFIDFScorer threeDocs) ''a.ts'' ''foo foo''
     = tfSpec [''foo''] ''foo'' * idfSpec (documents (newTFIDFScorer threeDocs)) ''foo''
       + tfSpec [''foo''] ''foo'' * idfSpec (documents (newTFIDFScorer threeDocs)) ''foo''"
proof -
  have f: "find (\<lambda>d. docPath d = ''a.ts'') (documents (newTFIDFScorer threeDocs))
             = Some \<lparr>docPath = ''a.ts'', docTokens = [''foo'']\<rparr>"
    by (simp add: threeDocs_documents)
  from tfidf_sums_over_all_query_tokens[OF f, of "''foo foo''"] show ?thesis
    by (simp add: tokenize_foo_foo)
qed

section \<open>Embedding cache\<close>

lemma cacheWellFormed_empty: "cacheWellFormed emptyCache"
  by (simp add: cacheWellFormed_def emptyCache_def)

lemma cacheWellFormed_cacheSet:
  "cacheWellFormed cd \<Longrightarrow> cacheWellFormed (cacheSet env cd p c m v)"
  by (auto simp: cacheWellFormed_def cacheSet_def Let_def)

lemma cacheWellFormed_cacheGet:
  "cacheWellFormed cd \<Longrightarrow> cacheWellFormed (snd (cacheGet env cd p c m))"
  by (auto simp: cacheWellFormed_def cacheGet_def Let_def split: option.splits CacheFile.splits)

lemma writable_cacheSet: "writable (cacheSet env cd p c m v) = writable cd"
  by (simp add: cacheSet_def Let_def)

lemma writable_cacheGet: "writable (snd (cacheGet env cd p c m)) = writable cd"
  by (simp add: cacheGet_def Let_def split: option.splits CacheFile.splits)

text \<open>
  Claim C7. On a cache directory that has the persisted layout and can be written:
  \<^verbatim>\<open>set(p,c,m,v)\<close> followed by \<^verbatim>\<open>get(p,c,m)\<close> returns \<open>v\<close>; \<^verbatim>\<open>get(p,c,m')\<close> with
  \<open>m' \<noteq> m\<close> is a miss and deletes the entry; in general \<^verbatim>\<open>get(p,c,m)\<close> returns \<open>v\<close>
  exactly when the directory holds an entry for \<open>v\<close> whose stored mtime is \<open>m\<close> and whose
  stored hash is SHA-256 of \<open>p\<close> followed by \<open>c\<close>; an entry under the key with another
  mtime is deleted by the read, and no other file is touched. Both operations keep the
  layout. (When the directory cannot be written, the write and the delete are skipped
  silently, as the code's handlers have it.)
\<close>

theorem cache_round_trip_and_freshness:
  assumes wf: "cacheWellFormed cd" and w: "writable cd"
  shows "fst (cacheGet env (cacheSet env cd p c m v) p c m) = Some v
    \<and> (m' \<noteq> m \<longrightarrow>
          fst (cacheGet env (cacheSet env cd p c m v) p c m') = None
        \<and> cacheFiles (snd (cacheGet env (cacheSet env cd p c m v) p c m'))
            (getCacheKey env p c) = None)
    \<and> (fst (cacheGet env cd p c m) = Some v \<longleftrightarrow>
          (\<exists>k e. cacheFiles cd k = Some (Parsed e)
               \<and> mtime e = m \<and> hash e = sha256Hex env (p @ c) \<and> embedding e = v))
    \<and> (\<forall>e. cacheFiles cd (getCacheKey env p c) = Some (Parsed e) \<and> mtime e \<noteq> m \<longrightarrow>
          fst (cacheGet env cd p c m) = None
        \<and> cacheFiles (snd (cacheGet env cd p c m)) (getCacheKey env p c) = None
        \<and> (\<forall>k. k \<noteq> getCacheKey env p c \<longrightarrow>
               cacheFiles (snd (cacheGet env cd p c m)) k = cacheFiles cd k))
    \<and> cacheWellFormed (cacheSet env cd p c m v)
    \<and> cacheWellFormed (snd (cacheGet env cd p c m))"
proof -
  have rt: "fst (cacheGet env (cacheSet env cd p c m v) p c m) = Some v"
    using w by (simp add: cacheGet_def cacheSet_def Let_def)
  have stale_new: "m' \<noteq> m \<longrightarrow>
          fst (cacheGet env (cacheSet env cd p c m v) p c m') = None
        \<and> cacheFiles (snd (cacheGet env (cacheSet env cd p c m v) p c m'))
            (getCacheKey env p c) = None"
    using w by (simp add: cacheGet_def cacheSet_def Let_def)
  have iff: "fst (cacheGet env cd p c m) = Some v \<longleftrightarrow>
          (\<exists>k e. cacheFiles cd k = Some (Parsed e)
               \<and> mtime e = m \<and> hash e = sha256Hex env (p @ c) \<and> embedding e = v)"
  proof
    assume "fst (cacheGet env cd p c m) = Some v"
    then obtain e where e: "cacheFiles cd (getCacheKey env p c) = Some (Parsed e)"
      "mtime e = m" "embedding e = v"
      by (auto simp: cacheGet_def Let_def split: option.splits CacheFile.splits if_splits)
    with wf have "hash e = sha256Hex env (p @ c)"
      by (simp add: cacheWellFormed_def getCacheKey_def)
    with e show "\<exists>k e. cacheFiles cd k = Some (Parsed e)
               \<and> mtime e = m \<and> hash e = sha256Hex env (p @ c) \<and> embedding e = v"
      by blast
  next
    assume "\<exists>k e. cacheFiles cd k = Some (Parsed e)
               \<and> mtime e = m \<and> hash e = sha256Hex env (p @ c) \<and> embedding e = v"
    then obtain k e where e: "cacheFiles cd k = Some (Parsed e)" "mtime e = m"
      "hash e = sha256Hex env (p @ c)" "embedding e = v"
      by blast
    with wf have "k = getCacheKey env p c"
      by (auto simp: cacheWellFormed_def getCacheKey_def)
    with e show "fst (cacheGet env cd p c m) = Some v"
      by (simp add: cacheGet_def Let_def)
  qed
  have stale: "\<forall>e. cacheFiles cd (getCacheKey env p c) = Some (Parsed e) \<and> mtime e \<noteq> m \<longrightarrow>
          fst (cacheGet env cd p c m) = None
        \<and> cacheFiles (snd (cacheGet env cd p c m)) (getCacheKey env p c) = None
        \<and> (\<forall>k. k \<noteq> getCacheKey env p c \<longrightarrow>
               cacheFiles (snd (cacheGet env cd p c m)) k = cacheFiles cd k)"
    using w by (simp add: cacheGet_def Let_def)
  from rt stale_new iff stale cacheWellFormed_cacheSet[OF wf] cacheWellFormed_cacheGet[OF wf]
  show ?thesis by blast
qed

theorem cache_round_trip_and_freshness_witness:
  "fst (cacheGet demoEnv (cacheSet demoEnv emptyCache ''a.ts'' ''x'' 1000 [1, 2])
          ''a.ts'' ''x'' 1000) = Some [1, 2]
   \<and> fst (cacheGet demoEnv (cacheSet demoEnv emptyCache ''a.ts'' ''x'' 1000 [1, 2])
          ''a.ts'' ''x'' 2000) = None
   \<and> cacheFiles (snd (cacheGet demoEnv (cacheSet demoEnv emptyCache ''a.ts'' ''x'' 1000 [1, 2])
          ''a.ts'' ''x'' 2000)) (getCacheKey demoEnv ''a.ts'' ''x'') = None"
proof -
  have "writable emptyCache" by (simp add: emptyCache_def)
  from cache_round_trip_and_freshness[OF cacheWellFormed_empty this,
      of demoEnv "''a.ts''" "''x''" 1000 "[1, 2]" 2000]
  show ?thesis by simp
qed

section \<open>Failing embedding calls\<close>

lemma demo_query: "buildQuery (promptContext demoOptions) = ''login''"
  by (simp add: buildQuery_def demoOptions_def lastN_def Let_def)

lemma docFail_candidates: "candidatesOf docFailEnv demoOptions = [loginCandidate]"
  by (simp add: candidatesOf_def prepareCandidates_def docFailEnv_def demoEnv_def
      demoOptions_def loginCandidate_def)

lemma keywords_login: "extractKeywords ''login'' = [''login'']"
  by (simp add: extractKeywords_def rawKeywords_def toLowerCase_def toLowerChar_def
      upperChars_def lowerChars_def digitChars_def isWordChar_def isSpaceChar_def split_ws_def
      keywordStopWords_def Let_def)

lemma docFail_loop:
  "embedCandidate docFailEnv demoOptions ''login'' [1, 0] loginCandidate emptyCache
     = (loginCandidate, emptyCache)"
  by (simp add: embedCandidate_def docFailEnv_def demoEnv_def loginCandidate_def Let_def)

lemma qf_candidates: "candidatesOf queryFailEnv demoOptions = [loginCandidate]"
  by (simp add: candidatesOf_def prepareCandidates_def queryFailEnv_def demoEnv_def
      demoOptions_def loginCandidate_def)

lemma tokenize_alpha: "tokenize ''alpha'' = [''alpha'']" "tokenize ''login'' = [''login'']"
  by (simp_all add: tokenize_eval)

lemma qf_tfidf_score: "scoreDocument (newTFIDFScorer [loginCandidate]) ''login.ts'' ''login'' = 0"
  by (simp add: scoreDocument_def newTFIDFScorer_def Let_def loginCandidate_def tokenize_alpha
      getOrZero_def computeTF_def countTokens_def computeIDF_def)

lemma qf_tfidf:
  "scoreWithTFIDF queryFailEnv demoOptions ''login'' [loginCandidate] = [loginAfterTfidf]"
proof -
  have s: "scoreDocument (newTFIDFScorer [loginCandidate]) (path loginCandidate) ''login'' = 0"
    using qf_tfidf_score by (simp add: loginCandidate_def)
  have "addHeuristicScores queryFailEnv demoOptions ''login''
      (loginCandidate\<lparr>score := 0,
         reasons := reasons loginCandidate @ [''tf-idf score: '' @ toFixed queryFailEnv 0 3]\<rparr>)
     = loginAfterTfidf"
    by (simp add: addHeuristicScores_def scoreByPath_def queryFailEnv_def demoEnv_def Let_def
        boost_def bump_def loginCandidate_def loginAfterTfidf_def split_ws_def isWordChar_def
        isSpaceChar_def digitChars_def toLowerCase_def toLowerChar_def upperChars_def
        lowerChars_def)
  then show ?thesis
    by (simp only: scoreWithTFIDF_def Let_def list.map s sortByScoreDesc_def sort_key_simps
        insort_key.simps)
qed

lemma qf_adjust: "keywordAdjust queryFailEnv [''login''] loginAfterTfidf = loginFinal"
  by (simp add: keywordAdjust_def queryFailEnv_def demoEnv_def Let_def boost_def
      loginAfterTfidf_def loginFinal_def toLowerCase_def toLowerChar_def upperChars_def
      lowerChars_def)

lemma sort_single: "sortByScoreDesc [c] = [c]"
  by (simp add: sortByScoreDesc_def)

lemma qf_scored:
  "scoreCandidates queryFailEnv demoOptions [loginCandidate] emptyCache
     = ([loginFinal], emptyCache)"
proof -
  have "providerAvailable queryFailEnv" "embed queryFailEnv ''login'' = None"
    by (simp_all add: queryFailEnv_def)
  then have "baseScore queryFailEnv demoOptions ''login'' [loginCandidate] emptyCache
      = ([loginAfterTfidf], emptyCache)"
    by (simp add: baseScore_def scoreWithEmbeddings_def qf_tfidf)
  then show ?thesis
    by (simp add: scoreCandidates_def Let_def demo_query keywords_login qf_adjust sort_single)
qed

lemma demoOptions_fields:
  "mode demoOptions = Balanced" "tokenBudgetOpt demoOptions = Some 5000"
  by (simp_all add: demoOptions_def)

lemma auto_only_selected:
  "isAutoInclude c \<Longrightarrow> fst (selectWithinBudget env [c] budget opts) = [c]"
  by (simp add: selectWithinBudget_def Let_def)

text \<open>
  Claim C4, at an input where it fails. The provider is configured and its call for the
  query fails, so \<^verbatim>\<open>scoreWithEmbeddings\<close> hands the candidates to \<^verbatim>\<open>scoreWithTFIDF\<close>: the
  base scores are TF-IDF scores and the returned reason trail starts with "tf-idf score".
  The result nevertheless reports \<open>scoringMethod = "embeddings"\<close>, because the field is
  computed from the provider's availability alone; the claim requires "tf-idf" here.
\<close>

theorem scoring_method_after_query_failure:
  "providerAvailable queryFailEnv
   \<and> embed queryFailEnv (buildQuery (promptContext demoOptions)) = None
   \<and> baseScore queryFailEnv demoOptions (buildQuery (promptContext demoOptions))
        (candidatesOf queryFailEnv demoOptions) emptyCache
       = (scoreWithTFIDF queryFailEnv demoOptions (buildQuery (promptContext demoOptions))
            (candidatesOf queryFailEnv demoOptions), emptyCache)
   \<and> scoringMethod (debug (fst (selectFiles queryFailEnv demoOptions emptyCache)))
       = ''embeddings''
   \<and> topScores (debug (fst (selectFiles queryFailEnv demoOptions emptyCache)))
       = [\<lparr>topPath = ''login.ts'', topScore = 11.3,
           topReason = ''tf-idf score: 0.000, filename contains '' @ dq @ ''login'' @ dq
                        @ '', auto-include, bonus: keyword match''\<rparr>]"
proof -
  have p: "providerAvailable queryFailEnv" and e: "embed queryFailEnv ''login'' = None"
    by (simp_all add: queryFailEnv_def)
  have b: "baseScore queryFailEnv demoOptions ''login'' [loginCandidate] emptyCache
       = (scoreWithTFIDF queryFailEnv demoOptions ''login'' [loginCandidate], emptyCache)"
    using p e by (simp add: baseScore_def scoreWithEmbeddings_def)
  have a: "isAutoInclude loginFinal" by (simp add: loginFinal_def)
  have m: "scoringMethod (debug (fst (selectFiles queryFailEnv demoOptions emptyCache)))
       = ''embeddings''"
    using p by (simp add: selectFiles_def Let_def demoOptions_fields)
  have "topScores (debug (fst (selectFiles queryFailEnv demoOptions emptyCache)))
       = [\<lparr>topPath = path loginFinal, topScore = score loginFinal,
           topReason = join '', '' (reasons loginFinal)\<rparr>]"
    by (simp add: selectFiles_def Let_def demoOptions_fields
        qf_candidates[unfolded candidatesOf_def] qf_scored auto_only_selected[OF a])
  then have t: "topScores (debug (fst (selectFiles queryFailEnv demoOptions emptyCache)))
       = [\<lparr>topPath = ''login.ts'', topScore = 11.3,
           topReason = ''tf-idf score: 0.000, filename contains '' @ dq @ ''login'' @ dq
                        @ '', auto-include, bonus: keyword match''\<rparr>]"
    by (simp add: loginFinal_def dq_def)
  from p e b m t show ?thesis
    by (simp only: demo_query qf_candidates)
qed

text \<open>
  Claim C5, at an input where it fails. The query is embedded, the call for the file's
  content fails. The \<^verbatim>\<open>continue\<close> of the loop skips \<^verbatim>\<open>addHeuristicScores\<close> together with
  the similarity: the candidate leaves the base scoring unchanged, with score 0 and no
  reason, although the heuristics would add 10.8 (file name match and auto-include
  boost). Only the keyword pass is applied afterwards, so the file is returned with
  score 0.5 and the single reason "bonus: keyword match". The claim requires the
  heuristic adjustments as well.
\<close>

theorem heuristics_skipped_after_file_embedding_failure:
  "embed docFailEnv (buildQuery (promptContext demoOptions)) = Some [1, 0]
   \<and> embed docFailEnv (content loginCandidate) = None
   \<and> candidatesOf docFailEnv demoOptions = [loginCandidate]
   \<and> baseScore docFailEnv demoOptions (buildQuery (promptContext demoOptions))
        [loginCandidate] emptyCache = ([loginCandidate], emptyCache)
   \<and> addHeuristicScores docFailEnv demoOptions (buildQuery (promptContext demoOptions))
        loginCandidate = loginHeuristic
   \<and> fst (scoreCandidates docFailEnv demoOptions [loginCandidate] emptyCache)
       = [loginKeywordOnly]
   \<and> topScores (debug (fst (selectFiles docFailEnv demoOptions emptyCache)))
       = [\<lparr>topPath = ''login.ts'', topScore = 0.5, topReason = ''bonus: keyword match''\<rparr>]"
proof -
  have q: "embed docFailEnv ''login'' = Some [1, 0]"
    and d: "embed docFailEnv (content loginCandidate) = None"
    and p: "providerAvailable docFailEnv"
    by (simp_all add: docFailEnv_def loginCandidate_def)
  have b: "baseScore docFailEnv demoOptions ''login'' [loginCandidate] emptyCache
       = ([loginCandidate], emptyCache)"
    using p q by (simp add: baseScore_def scoreWithEmbeddings_def Let_def docFail_loop sort_single)
  have h: "addHeuristicScores docFailEnv demoOptions ''login'' loginCandidate = loginHeuristic"
    by (simp add: addHeuristicScores_def scoreByPath_def docFailEnv_def demoEnv_def Let_def
        boost_def bump_def loginCandidate_def loginHeuristic_def split_ws_def isWordChar_def
        isSpaceChar_def digitChars_def toLowerCase_def toLowerChar_def upperChars_def
        lowerChars_def)
  have k: "keywordAdjust docFailEnv [''login''] loginCandidate = loginKeywordOnly"
    by (simp add: keywordAdjust_def docFailEnv_def demoEnv_def Let_def boost_def
        loginCandidate_def loginKeywordOnly_def toLowerCase_def toLowerChar_def upperChars_def
        lowerChars_def)
  have s: "scoreCandidates docFailEnv demoOptions [loginCandidate] emptyCache
       = ([loginKeywordOnly], emptyCache)"
    by (simp add: scoreCandidates_def Let_def demo_query keywords_login b k sort_single)
  have a: "isAutoInclude loginKeywordOnly" by (simp add: loginKeywordOnly_def)
  have "topScores (debug (fst (selectFiles docFailEnv demoOptions emptyCache)))
       = [\<lparr>topPath = path loginKeywordOnly, topScore = score loginKeywordOnly,
           topReason = join '', '' (reasons loginKeywordOnly)\<rparr>]"
    by (simp add: selectFiles_def Let_def demoOptions_fields
        docFail_candidates[unfolded candidatesOf_def] s auto_only_selected[OF a])
  then have t: "topScores (debug (fst (selectFiles docFailEnv demoOptions emptyCache)))
       = [\<lparr>topPath = ''login.ts'', topScore = 0.5, topReason = ''bonus: keyword match''\<rparr>]"
    by (simp add: loginKeywordOnly_def)
  from q d b h s t docFail_candidates show ?thesis
    by (simp only: demo_query fst_conv)
qed

section \<open>Off mode\<close>

text \<open>
  Claim C9. With \<open>mode = off\<close> the call returns exactly the scanner's files in their
  order, without scoring: \<open>selectedCount\<close> is their number, \<open>tokenUsage\<close> is the sum of
  their estimated tokens and \<open>tokenBudget\<close> equals it, \<open>scoringMethod\<close> is
  "traditional", \<open>topScores\<close> is empty and \<open>excludedCount\<close> is 0. The cache is not
  touched.
\<close>

theorem off_mode_pass_through:
  fixes env :: Env and opts :: SmartContextOptions and cd :: CacheDir
  defines "r \<equiv> fst (selectFiles env (opts\<lparr>mode := Off\<rparr>) cd)"
    and "scanned \<equiv> extractCodebase env (appPath opts) (chatContext opts)"
  shows "selectedFiles r = scanned
    \<and> selectedCount (debug r) = length scanned
    \<and> tokenUsage (debug r) = sum_list (map (\<lambda>f. estimateTokens env (content f)) scanned)
    \<and> tokenBudget (debug r) = tokenUsage (debug r)
    \<and> scoringMethod (debug r) = ''traditional''
    \<and> topScores (debug r) = []
    \<and> excludedCount (debug r) = 0
    \<and> snd (selectFiles env (opts\<lparr>mode := Off\<rparr>) cd) = cd"
  unfolding r_def scanned_def
  by (simp add: selectFiles_def selectFilesTraditional_def fold_add_sum Let_def)

theorem off_mode_pass_through_witness:
  "selectedFiles (fst (selectFiles demoEnv (demoOptions\<lparr>mode := Off\<rparr>) emptyCache)) = demoFiles
   \<and> selectedCount (debug (fst (selectFiles demoEnv (demoOptions\<lparr>mode := Off\<rparr>) emptyCache))) = 3
   \<and> tokenUsage (debug (fst (selectFiles demoEnv (demoOptions\<lparr>mode := Off\<rparr>) emptyCache))) = 5432
   \<and> tokenBudget (debug (fst (selectFiles demoEnv (demoOptions\<lparr>mode := Off\<rparr>) emptyCache))) = 5432
   \<and> scoringMethod (debug (fst (selectFiles demoEnv (demoOptions\<lparr>mode := Off\<rparr>) emptyCache)))
       = ''traditional''
   \<and> topScores (debug (fst (selectFiles demoEnv (demoOptions\<lparr>mode := Off\<rparr>) emptyCache))) = []"
  using off_mode_pass_through[of demoEnv demoOptions emptyCache]
  by (simp add: demoEnv_def demoFiles_def)

end
